theory Spec2Isabelle
  imports Complex_Main
begin

section \<open>Pixels and compositing\<close>

text \<open>
  The texture pipeline draws on HTML canvases. A canvas pixel is modelled as a
  premultiplied RGBA value with exact real channels in \<open>[0,1]\<close>; the 8-bit storage of
  a user agent and its rounding are not modelled (JavaScript numbers are exact reals
  throughout). Compositing follows Porter-Duff on premultiplied values.
\<close>

datatype pixel = Pixel (red: real) (green: real) (blue: real) (alpha: real)

instantiation pixel :: comm_monoid_add
begin

definition zero_pixel :: pixel where
  "zero_pixel = Pixel 0 0 0 0"

definition plus_pixel :: "pixel \<Rightarrow> pixel \<Rightarrow> pixel" where
  "plus_pixel p q = Pixel (red p + red q) (green p + green q) (blue p + blue q) (alpha p + alpha q)"

instance
  by standard (simp_all add: zero_pixel_def plus_pixel_def)

end

definition scalePx :: "real \<Rightarrow> pixel \<Rightarrow> pixel" where
  "scalePx k p = Pixel (k * red p) (k * green p) (k * blue p) (k * alpha p)"

datatype compositeOp = SourceOver | DestinationIn

text \<open>\<open>source-over\<close>: the source covers the destination by its own alpha.\<close>

definition over :: "pixel \<Rightarrow> pixel \<Rightarrow> pixel" where
  "over s d = s + scalePx (1 - alpha s) d"

text \<open>\<open>destination-in\<close>: the destination is kept in proportion to the source's alpha.\<close>

fun compose :: "compositeOp \<Rightarrow> pixel \<Rightarrow> pixel \<Rightarrow> pixel" where
  "compose SourceOver s d = over s d"
| "compose DestinationIn s d = scalePx (alpha s) d"

section \<open>Surfaces, the canvas store and the user agent\<close>

record surface =
  width :: nat
  height :: nat
  pix :: "nat \<Rightarrow> nat \<Rightarrow> pixel"

text \<open>A new canvas is transparent black.\<close>

definition blank :: "nat \<Rightarrow> nat \<Rightarrow> surface" where
  "blank w h = \<lparr>width = w, height = h, pix = (\<lambda>x y. 0)\<rparr>"

text \<open>
  Canvases are mutable objects: they live in a store and are named by their index.
  Every \<open>document.createElement('canvas')\<close> appends a fresh one.
\<close>

type_synonym canvas = nat
type_synonym heap = "surface list"

datatype error = NoContext | InvalidState | LoadFailed

definition bindE :: "error + 'a \<Rightarrow> ('a \<Rightarrow> error + 'b) \<Rightarrow> error + 'b" where
  "bindE m f = (case m of Inl e \<Rightarrow> Inl e | Inr a \<Rightarrow> f a)"

datatype OutputFormat = JPEG | PNG

text \<open>
  What the program leaves to the user agent: whether \<open>getContext('2d')\<close> yields a context
  for a canvas of a given size, the Gaussian blur of the \<open>filter\<close> property (a map
  on pixel fields, by radius), and the encoder behind \<open>toDataURL\<close>.
\<close>

record useragent =
  getContext2d :: "nat \<Rightarrow> nat \<Rightarrow> bool"
  gaussianBlur :: "real \<Rightarrow> (nat \<Rightarrow> nat \<Rightarrow> pixel) \<Rightarrow> nat \<Rightarrow> nat \<Rightarrow> pixel"
  toDataURL :: "surface \<Rightarrow> OutputFormat \<Rightarrow> real option \<Rightarrow> string"

text \<open>
  A radial gradient from radius 0 to \<open>r\<close> about one centre, black, with alpha 1 from
  offset 0 to offset \<open>stop\<close> and alpha 0 at offset 1.
\<close>

record gradient =
  gcx :: real
  gcy :: real
  gr :: real
  gstop :: real

text \<open>
  The drawing state of a 2D context: the canvas it draws on, the current transformation
  (\<open>X = ctmA * x + ctmE\<close>, \<open>Y = ctmD * y + ctmF\<close>: the program only translates and
  scales), \<open>globalAlpha\<close>, \<open>globalCompositeOperation\<close>, the gradient of
  \<open>fillStyle\<close> and the radius of a \<open>blur\<close> filter (\<open>None\<close> for \<open>'none'\<close>).
\<close>

record context2d =
  target :: canvas
  ctmA :: real
  ctmE :: real
  ctmD :: real
  ctmF :: real
  globalAlpha :: real
  compositeOp :: compositeOp
  fillStyle :: "gradient option"
  filterBlur :: "real option"

definition newContext :: "canvas \<Rightarrow> context2d" where
  "newContext c = \<lparr>target = c, ctmA = 1, ctmE = 0, ctmD = 1, ctmF = 0, globalAlpha = 1,
     compositeOp = SourceOver, fillStyle = None, filterBlur = None\<rparr>"

text \<open>\<open>ctx.translate(tx, ty)\<close> and \<open>ctx.scale(kx, ky)\<close> multiply the transformation on the right.\<close>

definition translate :: "real \<Rightarrow> real \<Rightarrow> context2d \<Rightarrow> context2d" where
  "translate tx ty ctx = ctx\<lparr>ctmE := ctmA ctx * tx + ctmE ctx, ctmF := ctmD ctx * ty + ctmF ctx\<rparr>"

definition scale :: "real \<Rightarrow> real \<Rightarrow> context2d \<Rightarrow> context2d" where
  "scale kx ky ctx = ctx\<lparr>ctmA := ctmA ctx * kx, ctmD := ctmD ctx * ky\<rparr>"

text \<open>Setting \<open>globalAlpha\<close> outside \<open>[0,1]\<close> is ignored.\<close>

definition setGlobalAlpha :: "real \<Rightarrow> context2d \<Rightarrow> context2d" where
  "setGlobalAlpha v ctx = (if 0 \<le> v \<and> v \<le> 1 then ctx\<lparr>globalAlpha := v\<rparr> else ctx)"

text \<open>Setting \<open>filter\<close> to \<open>blur(r px)\<close> with a negative length does not parse and is ignored.\<close>

definition setFilterBlur :: "real \<Rightarrow> context2d \<Rightarrow> context2d" where
  "setFilterBlur r ctx = (if 0 \<le> r then ctx\<lparr>filterBlur := Some r\<rparr> else ctx)"

text \<open>
  \<open>createCanvas\<close> (lines 14-21). Assigning a number to \<open>canvas.width\<close> truncates it
  (its arguments are never negative in this program); the function throws when no
  context is obtained.
\<close>

definition createCanvas :: "useragent \<Rightarrow> real \<Rightarrow> real \<Rightarrow> heap \<Rightarrow> error + ((canvas \<times> context2d) \<times> heap)" where
  "createCanvas ua w h hp =
     (let cw = nat \<lfloor>w\<rfloor>; ch = nat \<lfloor>h\<rfloor> in
      if getContext2d ua cw ch
      then Inr ((length hp, newContext (length hp)), hp @ [blank cw ch])
      else Inl NoContext)"

section \<open>Rasterisation\<close>

text \<open>
  Images are sampled by area: a source pixel is a unit square of constant colour, the
  source rectangle is clipped to the image, and a device pixel receives every source
  pixel weighted by the area of the device pixel that the source pixel's image covers.
  For an unscaled draw at whole coordinates this is the exact copy; for a draw scaled
  by one half it is the mean of two by two source pixels.
\<close>

text \<open>The length of the intersection of the intervals \<open>[a,b]\<close> and \<open>[c,d]\<close>.\<close>

definition ov :: "real \<Rightarrow> real \<Rightarrow> real \<Rightarrow> real \<Rightarrow> real" where
  "ov a b c d = max 0 (min b d - max a c)"

text \<open>
  One axis: the weight of source column \<open>i\<close> of an image \<open>n\<close> wide in device column
  \<open>X\<close>, for the source interval \<open>[s, s + l]\<close> carried to the device by \<open>u \<mapsto> m * u + t\<close>.
\<close>

definition wt :: "nat \<Rightarrow> real \<Rightarrow> real \<Rightarrow> real \<Rightarrow> real \<Rightarrow> nat \<Rightarrow> nat \<Rightarrow> real" where
  "wt n s l m t X i =
     (let lo = max (max s 0) (real i); hi = min (min (s + l) (real n)) (real i + 1) in
      if hi \<le> lo then 0
      else ov (min (m * lo + t) (m * hi + t)) (max (m * lo + t) (m * hi + t)) (real X) (real X + 1))"

text \<open>
  One axis of a draw under the current transformation: the source coordinate \<open>u\<close> of the
  source interval \<open>[s, s + l]\<close>, drawn onto \<open>[d, d + dl]\<close> with the transformation
  \<open>x \<mapsto> a * x + e\<close>, lands at \<open>slope * u + offset\<close> on the device.
\<close>

definition slope :: "real \<Rightarrow> real \<Rightarrow> real \<Rightarrow> real" where
  "slope a l dl = a * (dl / l)"

definition offset :: "real \<Rightarrow> real \<Rightarrow> real \<Rightarrow> real \<Rightarrow> real \<Rightarrow> real \<Rightarrow> real" where
  "offset a e s l d dl = a * (d - s * (dl / l)) + e"

definition rasterImage :: "context2d \<Rightarrow> surface \<Rightarrow> real \<Rightarrow> real \<Rightarrow> real \<Rightarrow> real \<Rightarrow>
    real \<Rightarrow> real \<Rightarrow> real \<Rightarrow> real \<Rightarrow> nat \<Rightarrow> nat \<Rightarrow> pixel" where
  "rasterImage ctx img sx sy sw sh dx dy dw dh X Y =
     (\<Sum>i<width img. \<Sum>j<height img.
        scalePx (wt (width img) sx sw (slope (ctmA ctx) sw dw) (offset (ctmA ctx) (ctmE ctx) sx sw dx dw) X i
               * wt (height img) sy sh (slope (ctmD ctx) sh dh) (offset (ctmD ctx) (ctmF ctx) sy sh dy dh) Y j)
          (pix img i j))"

text \<open>A blur filter of positive radius is the user agent's; radius 0 leaves the image as it is.\<close>

definition filtered :: "useragent \<Rightarrow> context2d \<Rightarrow> (nat \<Rightarrow> nat \<Rightarrow> pixel) \<Rightarrow> nat \<Rightarrow> nat \<Rightarrow> pixel" where
  "filtered ua ctx f =
     (case filterBlur ctx of None \<Rightarrow> f | Some r \<Rightarrow> if 0 < r then gaussianBlur ua r f else f)"

definition paintImage :: "useragent \<Rightarrow> context2d \<Rightarrow> surface \<Rightarrow> real \<Rightarrow> real \<Rightarrow> real \<Rightarrow> real \<Rightarrow>
    real \<Rightarrow> real \<Rightarrow> real \<Rightarrow> real \<Rightarrow> surface \<Rightarrow> surface" where
  "paintImage ua ctx img sx sy sw sh dx dy dw dh dst =
     dst\<lparr>pix := (\<lambda>X Y.
       if X < width dst \<and> Y < height dst
       then compose (compositeOp ctx)
              (scalePx (globalAlpha ctx)
                 (filtered ua ctx (rasterImage ctx img sx sy sw sh dx dy dw dh) X Y))
              (pix dst X Y)
       else pix dst X Y)\<rparr>"

text \<open>
  \<open>ctx.drawImage(image, sx, sy, sw, sh, dx, dy, dw, dh)\<close> with a canvas as the image
  (the program never passes a negative extent). A canvas with no pixels is not a usable
  image: the call throws \<open>InvalidStateError\<close>. An empty source rectangle paints nothing.
\<close>

definition drawImage9 :: "useragent \<Rightarrow> context2d \<Rightarrow> canvas \<Rightarrow> real \<Rightarrow> real \<Rightarrow> real \<Rightarrow> real \<Rightarrow>
    real \<Rightarrow> real \<Rightarrow> real \<Rightarrow> real \<Rightarrow> heap \<Rightarrow> error + heap" where
  "drawImage9 ua ctx img sx sy sw sh dx dy dw dh hp =
     (if width (hp ! img) = 0 \<or> height (hp ! img) = 0 then Inl InvalidState
      else if sw = 0 \<or> sh = 0 then Inr hp
      else Inr (hp[target ctx :=
             paintImage ua ctx (hp ! img) sx sy sw sh dx dy dw dh (hp ! target ctx)]))"

text \<open>\<open>ctx.drawImage(image, dx, dy)\<close>: the whole image at its own size.\<close>

definition drawImage3 :: "useragent \<Rightarrow> context2d \<Rightarrow> canvas \<Rightarrow> real \<Rightarrow> real \<Rightarrow> heap \<Rightarrow> error + heap" where
  "drawImage3 ua ctx img dx dy hp =
     drawImage9 ua ctx img 0 0 (real (width (hp ! img))) (real (height (hp ! img)))
       dx dy (real (width (hp ! img))) (real (height (hp ! img))) hp"

text \<open>
  \<open>ctx.drawImage(img, dx, dy)\<close> with a decoded image element: an image without pixels
  is skipped silently.
\<close>

definition drawElement :: "useragent \<Rightarrow> context2d \<Rightarrow> surface \<Rightarrow> real \<Rightarrow> real \<Rightarrow> heap \<Rightarrow> heap" where
  "drawElement ua ctx img dx dy hp =
     (if width img = 0 \<or> height img = 0 then hp
      else hp[target ctx :=
             paintImage ua ctx img 0 0 (real (width img)) (real (height img))
               dx dy (real (width img)) (real (height img)) (hp ! target ctx)])"

text \<open>
  The alpha of a gradient at a point: 1 up to the inner stop, falling linearly to 0 at
  the outer circle, 0 beyond it; a gradient whose circles coincide paints nothing.
\<close>

definition gradientAlpha :: "gradient \<Rightarrow> real \<Rightarrow> real \<Rightarrow> real" where
  "gradientAlpha g x y =
     (let d2 = (x - gcx g)\<^sup>2 + (y - gcy g)\<^sup>2 in
      if gr g \<le> 0 then 0
      else if d2 \<le> (gstop g * gr g)\<^sup>2 then 1
      else if (gr g)\<^sup>2 \<le> d2 then 0
      else (1 - sqrt d2 / gr g) / (1 - gstop g))"

text \<open>
  \<open>ctx.fillRect(x, y, w, h)\<close> in the untransformed context with a gradient as the
  fill style: the gradient is read at the pixel centre and weighted by the part of the
  pixel inside the rectangle.
\<close>

definition fillRect :: "context2d \<Rightarrow> real \<Rightarrow> real \<Rightarrow> real \<Rightarrow> real \<Rightarrow> heap \<Rightarrow> heap" where
  "fillRect ctx x y w h hp =
     (case fillStyle ctx of None \<Rightarrow> hp
      | Some g \<Rightarrow>
        hp[target ctx := (hp ! target ctx)\<lparr>pix := (\<lambda>X Y.
          if X < width (hp ! target ctx) \<and> Y < height (hp ! target ctx)
          then compose (compositeOp ctx)
                 (scalePx (globalAlpha ctx * (ov x (x + w) (real X) (real X + 1) * ov y (y + h) (real Y) (real Y + 1))
                      * gradientAlpha g (real X + 1 / 2) (real Y + 1 / 2))
                    (Pixel 0 0 0 1))
                 (pix (hp ! target ctx) X Y)
          else pix (hp ! target ctx) X Y)\<rparr>])"

text \<open>
  \<open>ctx.strokeRect(x, y, w, h)\<close> in the untransformed context with line width 1 and a
  plain colour: the stroke is the frame of half a pixel on each side of the rectangle's
  outline, and each pixel takes the colour by the area of the frame inside it.
\<close>

definition strokeCoverage :: "real \<Rightarrow> real \<Rightarrow> real \<Rightarrow> real \<Rightarrow> nat \<Rightarrow> nat \<Rightarrow> real" where
  "strokeCoverage x y w h X Y =
     ov (x - 1 / 2) (x + w + 1 / 2) (real X) (real X + 1) * ov (y - 1 / 2) (y + h + 1 / 2) (real Y) (real Y + 1)
     - ov (x + 1 / 2) (x + w - 1 / 2) (real X) (real X + 1) * ov (y + 1 / 2) (y + h - 1 / 2) (real Y) (real Y + 1)"

definition strokeRect :: "context2d \<Rightarrow> pixel \<Rightarrow> real \<Rightarrow> real \<Rightarrow> real \<Rightarrow> real \<Rightarrow> heap \<Rightarrow> heap" where
  "strokeRect ctx strokeStyle x y w h hp =
     hp[target ctx := (hp ! target ctx)\<lparr>pix := (\<lambda>X Y.
       if X < width (hp ! target ctx) \<and> Y < height (hp ! target ctx)
       then compose (compositeOp ctx)
              (scalePx (globalAlpha ctx * strokeCoverage x y w h X Y) strokeStyle)
              (pix (hp ! target ctx) X Y)
       else pix (hp ! target ctx) X Y)\<rparr>]"

section \<open>Pre-processing\<close>

record CropSettings =
  top :: int
  bottom :: int
  left :: int
  right :: int

record AveragingSettings =
  intensity :: real
  radius :: real

text \<open>\<open>applyCrop\<close> (lines 27-40); \<open>None\<close> is the \<open>null\<close> it returns for an empty crop.\<close>

definition applyCrop :: "useragent \<Rightarrow> context2d \<Rightarrow> nat \<Rightarrow> nat \<Rightarrow> CropSettings \<Rightarrow> heap \<Rightarrow>
    error + (canvas option \<times> heap)" where
  "applyCrop ua ctx w h crop hp =
     (let newWidth = int w - left crop - right crop;
          newHeight = int h - top crop - bottom crop in
      if newWidth \<le> 0 \<or> newHeight \<le> 0 then Inr (None, hp)
      else
        bindE (createCanvas ua (real_of_int newWidth) (real_of_int newHeight) hp) (\<lambda>((croppedCanvas, croppedCtx), hp).
        bindE (drawImage9 ua croppedCtx (target ctx)
                 (real_of_int (left crop)) (real_of_int (top crop)) (real_of_int newWidth) (real_of_int newHeight)
                 0 0 (real_of_int newWidth) (real_of_int newHeight) hp) (\<lambda>hp.
        Inr (Some croppedCanvas, hp))))"

text \<open>\<open>applyAveraging\<close> (lines 42-74).\<close>

definition applyAveraging :: "useragent \<Rightarrow> canvas \<Rightarrow> AveragingSettings \<Rightarrow> heap \<Rightarrow> error + (canvas \<times> heap)" where
  "applyAveraging ua cv settings hp =
     (if intensity settings \<le> 0 then Inr (cv, hp)
      else
        let w = width (hp ! cv); h = height (hp ! cv) in
        bindE (createCanvas ua (real w) (real h) hp) (\<lambda>((outCanvas, outCtx), hp).
        bindE (drawImage3 ua outCtx cv 0 0 hp) (\<lambda>hp.
        bindE (createCanvas ua (real w) (real h) hp) (\<lambda>((blurCanvas, blurCtx), hp).
        bindE (drawImage3 ua (setFilterBlur (radius settings) blurCtx) cv 0 0 hp) (\<lambda>hp.
        bindE (drawImage3 ua (setGlobalAlpha (intensity settings / 100) (outCtx\<lparr>compositeOp := SourceOver\<rparr>))
                 blurCanvas 0 0 hp) (\<lambda>hp.
        Inr (outCanvas, hp)))))))"

text \<open>Step 2 of \<open>processTexture\<close> (lines 309-315): the current canvas after the pre-crop.\<close>

definition preCrop :: "useragent \<Rightarrow> CropSettings \<Rightarrow> canvas \<Rightarrow> heap \<Rightarrow> error + (canvas \<times> heap)" where
  "preCrop ua crop currentCanvas hp =
     (if top crop > 0 \<or> bottom crop > 0 \<or> left crop > 0 \<or> right crop > 0
      then bindE (applyCrop ua (newContext currentCanvas)
                    (width (hp ! currentCanvas)) (height (hp ! currentCanvas)) crop hp) (\<lambda>(cropped, hp).
           case cropped of Some c \<Rightarrow> Inr (c, hp) | None \<Rightarrow> Inr (currentCanvas, hp))
      else Inr (currentCanvas, hp))"

text \<open>Step 3 of \<open>processTexture\<close> (lines 317-320).\<close>

definition preAveraging :: "useragent \<Rightarrow> AveragingSettings \<Rightarrow> canvas \<Rightarrow> heap \<Rightarrow> error + (canvas \<times> heap)" where
  "preAveraging ua averaging currentCanvas hp =
     (if intensity averaging > 0 then applyAveraging ua currentCanvas averaging hp
      else Inr (currentCanvas, hp))"

section \<open>Seamless algorithms\<close>

text \<open>\<open>Math.round\<close>: to the nearest integer, halves upwards.\<close>

definition jsRound :: "real \<Rightarrow> real" where
  "jsRound x = of_int \<lfloor>x + 1 / 2\<rfloor>"

text \<open>
  A \<open>for (let i = 0; i < n; i++)\<close> loop over the canvas store; an exception in the
  body ends it.
\<close>

function forLoop :: "nat \<Rightarrow> nat \<Rightarrow> (nat \<Rightarrow> heap \<Rightarrow> error + heap) \<Rightarrow> heap \<Rightarrow> error + heap" where
  "forLoop i n body hp = (if i < n then bindE (body i hp) (forLoop (Suc i) n body) else Inr hp)"
  by pat_completeness auto
termination
  by (relation "measure (\<lambda>(i, n, body, hp). n - i)") auto

text \<open>\<open>generateMirrored\<close> (lines 81-121).\<close>

definition generateMirrored :: "useragent \<Rightarrow> canvas \<Rightarrow> heap \<Rightarrow> error + (canvas \<times> heap)" where
  "generateMirrored ua srcCanvas hp =
     (let w = real (width (hp ! srcCanvas)); h = real (height (hp ! srcCanvas)) in
      bindE (createCanvas ua w h hp) (\<lambda>((canvas, ctx), hp).
      let halfW = w / 2; halfH = h / 2 in
      bindE (drawImage9 ua ctx srcCanvas 0 0 w h 0 0 halfW halfH hp) (\<lambda>hp.
      bindE (drawImage9 ua (scale (- 1) 1 (translate w 0 ctx)) srcCanvas 0 0 w h 0 0 halfW halfH hp) (\<lambda>hp.
      bindE (drawImage9 ua (scale 1 (- 1) (translate 0 h ctx)) srcCanvas 0 0 w h 0 0 halfW halfH hp) (\<lambda>hp.
      bindE (drawImage9 ua (scale (- 1) (- 1) (translate w h ctx)) srcCanvas 0 0 w h 0 0 halfW halfH hp) (\<lambda>hp.
      Inr (canvas, hp)))))))"

text \<open>
  The four quadrant draws of \<open>generateScattered\<close> (lines 134-142), in the order of the
  source: the source corner and the destination corner of each; every one has the
  extent \<open>halfW\<close> by \<open>halfH\<close>.
\<close>

definition quadrant :: "nat \<Rightarrow> real \<Rightarrow> real \<Rightarrow> (real \<times> real) \<times> (real \<times> real)" where
  "quadrant k halfW halfH =
     [((0, 0), (halfW, halfH)),
      ((halfW, 0), (0, halfH)),
      ((0, halfH), (halfW, 0)),
      ((halfW, halfH), (0, 0))] ! k"

definition drawQuadrant :: "useragent \<Rightarrow> context2d \<Rightarrow> canvas \<Rightarrow> real \<Rightarrow> real \<Rightarrow> nat \<Rightarrow> heap \<Rightarrow> error + heap" where
  "drawQuadrant ua ctx srcCanvas halfW halfH k hp =
     (case quadrant k halfW halfH of ((sx, sy), (dx, dy)) \<Rightarrow>
        drawImage9 ua ctx srcCanvas sx sy halfW halfH dx dy halfW halfH hp)"

definition torusShift :: "useragent \<Rightarrow> context2d \<Rightarrow> canvas \<Rightarrow> real \<Rightarrow> real \<Rightarrow> heap \<Rightarrow> error + heap" where
  "torusShift ua ctx srcCanvas halfW halfH hp =
     bindE (drawQuadrant ua ctx srcCanvas halfW halfH 0 hp) (\<lambda>hp.
     bindE (drawQuadrant ua ctx srcCanvas halfW halfH 1 hp) (\<lambda>hp.
     bindE (drawQuadrant ua ctx srcCanvas halfW halfH 2 hp) (\<lambda>hp.
     drawQuadrant ua ctx srcCanvas halfW halfH 3 hp)))"

text \<open>\<open>generateScattered\<close> (lines 124-182).\<close>

definition generateScattered :: "useragent \<Rightarrow> canvas \<Rightarrow> heap \<Rightarrow> error + (canvas \<times> heap)" where
  "generateScattered ua srcCanvas hp =
     (let w = real (width (hp ! srcCanvas)); h = real (height (hp ! srcCanvas)) in
      bindE (createCanvas ua w h hp) (\<lambda>((canvas, ctx), hp).
      let halfW = jsRound (w / 2); halfH = jsRound (h / 2) in
      bindE (torusShift ua ctx srcCanvas halfW halfH hp) (\<lambda>hp.
      let blendSizeW = w * (7 / 10); blendSizeH = h * (7 / 10);
          blendX = (w - blendSizeW) / 2; blendY = (h - blendSizeH) / 2 in
      bindE (createCanvas ua blendSizeW blendSizeH hp) (\<lambda>((maskCanvas, maskCtx), hp).
      let gradient = \<lparr>gcx = blendSizeW / 2, gcy = blendSizeH / 2,
                       gr = min blendSizeW blendSizeH / 2, gstop = 1 / 2\<rparr> in
      bindE (createCanvas ua blendSizeW blendSizeH hp) (\<lambda>((patchCanvas, patchCtx), hp).
      bindE (drawImage9 ua patchCtx srcCanvas ((w - blendSizeW) / 2) ((h - blendSizeH) / 2) blendSizeW blendSizeH
               0 0 blendSizeW blendSizeH hp) (\<lambda>hp.
      let hp = fillRect (patchCtx\<lparr>compositeOp := DestinationIn, fillStyle := Some gradient\<rparr>)
                 0 0 blendSizeW blendSizeH hp in
      bindE (drawImage3 ua (ctx\<lparr>compositeOp := SourceOver\<rparr>) patchCanvas blendX blendY hp) (\<lambda>hp.
      Inr (canvas, hp))))))))"

text \<open>
  \<open>generatePatchBased\<close> (lines 185-258). \<open>rnd k\<close> is what the \<open>k\<close>-th call of
  \<open>Math.random()\<close> returns; every turn of the loop makes five calls. \<open>splatPatch\<close>
  is the second half of the loop body (lines 235-254), with \<open>sz\<close> for the patch's
  \<open>size\<close>: the fuzzy patch is cut from the source, masked and pasted.
\<close>

definition splatPatch :: "useragent \<Rightarrow> canvas \<Rightarrow> context2d \<Rightarrow> real \<Rightarrow> real \<Rightarrow> real \<Rightarrow> real \<Rightarrow> real \<Rightarrow>
    heap \<Rightarrow> error + heap" where
  "splatPatch ua srcCanvas ctx sz sx sy dx dy hp =
     bindE (createCanvas ua sz sz hp) (\<lambda>((pC, pCtx), hp).
     let grad = \<lparr>gcx = sz / 2, gcy = sz / 2, gr = sz / 2, gstop = 6 / 10\<rparr> in
     bindE (drawImage9 ua pCtx srcCanvas sx sy sz sz 0 0 sz sz hp) (\<lambda>hp.
     let hp = fillRect (pCtx\<lparr>compositeOp := DestinationIn, fillStyle := Some grad\<rparr>) 0 0 sz sz hp in
     drawImage3 ua (ctx\<lparr>compositeOp := SourceOver\<rparr>) pC dx dy hp))"

definition patchStep :: "useragent \<Rightarrow> (nat \<Rightarrow> real) \<Rightarrow> canvas \<Rightarrow> context2d \<Rightarrow> real \<Rightarrow> real \<Rightarrow> nat \<Rightarrow> heap \<Rightarrow> error + heap" where
  "patchStep ua rnd srcCanvas ctx w h i hp =
     (let minPatchSize = min w h * (2 / 10); maxPatchSize = min w h * (5 / 10);
          size = minPatchSize + rnd (5 * i) * (maxPatchSize - minPatchSize);
          sx = rnd (5 * i + 1) * (w - size);
          sy = rnd (5 * i + 2) * (h - size) in
      bindE (if i = 0
             then bindE (generateScattered ua srcCanvas hp) (\<lambda>(base, hp). drawImage3 ua ctx base 0 0 hp)
             else Inr hp) (\<lambda>hp.
      let dx = 10 + rnd (5 * i + 3) * (w - size - 20);
          dy = 10 + rnd (5 * i + 4) * (h - size - 20) in
      splatPatch ua srcCanvas ctx size sx sy dx dy hp))"

definition generatePatchBased :: "useragent \<Rightarrow> (nat \<Rightarrow> real) \<Rightarrow> canvas \<Rightarrow> heap \<Rightarrow> error + (canvas \<times> heap)" where
  "generatePatchBased ua rnd srcCanvas hp =
     (let w = real (width (hp ! srcCanvas)); h = real (height (hp ! srcCanvas)) in
      bindE (createCanvas ua w h hp) (\<lambda>((canvas, ctx), hp).
      bindE (drawImage3 ua ctx srcCanvas 0 0 hp) (\<lambda>hp.
      let patchCount = 30 in
      bindE (forLoop 0 patchCount (patchStep ua rnd srcCanvas ctx w h) hp) (\<lambda>hp.
      Inr (canvas, hp)))))"

section \<open>Tiling preview\<close>

text \<open>
  \<open>generateTilePreview\<close> (lines 264-285). The stroke style \<open>rgba(255, 0, 0, 0.5)\<close> is the
  premultiplied pixel \<open>Pixel (1/2) 0 0 (1/2)\<close>.
\<close>

definition generateTilePreview :: "useragent \<Rightarrow> canvas \<Rightarrow> nat \<Rightarrow> bool \<Rightarrow> heap \<Rightarrow> error + (canvas \<times> heap)" where
  "generateTilePreview ua textureCanvas tileFormat markSeams hp =
     (let w = real (width (hp ! textureCanvas)); h = real (height (hp ! textureCanvas));
          rows = tileFormat; cols = tileFormat in
      bindE (createCanvas ua (w * real cols) (h * real rows) hp) (\<lambda>((canvas, ctx), hp).
      bindE (forLoop 0 rows (\<lambda>r. forLoop 0 cols (\<lambda>c hp.
               bindE (drawImage3 ua ctx textureCanvas (real c * w) (real r * h) hp) (\<lambda>hp.
               Inr (if markSeams
                    then strokeRect ctx (Pixel (1 / 2) 0 0 (1 / 2)) (real c * w) (real r * h) w h hp
                    else hp)))) hp) (\<lambda>hp.
      Inr (canvas, hp))))"

section \<open>Main processor\<close>

text \<open>The values of the enumeration \<open>SeamlessMethod\<close>.\<close>

definition MIRRORED :: string where "MIRRORED = ''mirrored''"
definition SCATTERED :: string where "SCATTERED = ''scattered''"
definition PATCH_BASED :: string where "PATCH_BASED = ''patch_based''"

text \<open>
  Step 4 of \<open>processTexture\<close> (lines 322-335): the \<open>switch\<close> on the method, which is
  any string at run time.
\<close>

definition generateSeamless :: "useragent \<Rightarrow> (nat \<Rightarrow> real) \<Rightarrow> string \<Rightarrow> canvas \<Rightarrow> heap \<Rightarrow> error + (canvas \<times> heap)" where
  "generateSeamless ua rnd method currentCanvas hp =
     (if method = MIRRORED then generateMirrored ua currentCanvas hp
      else if method = PATCH_BASED then generatePatchBased ua rnd currentCanvas hp
      else generateScattered ua currentCanvas hp)"

record ProcessResult =
  seamlessUrl :: string
  previewUrl :: string
  result_width :: nat
  result_height :: nat

text \<open>
  \<open>processTexture\<close> (lines 291-349). \<open>loaded\<close> is what \<open>loadImage\<close> resolves to, or
  \<open>None\<close> when it rejects. The store is returned with the result.
\<close>

definition processTexture :: "useragent \<Rightarrow> (nat \<Rightarrow> real) \<Rightarrow> surface option \<Rightarrow> string \<Rightarrow> nat \<Rightarrow> bool \<Rightarrow>
    CropSettings \<Rightarrow> AveragingSettings \<Rightarrow> OutputFormat \<Rightarrow> real \<Rightarrow> heap \<Rightarrow> error + (ProcessResult \<times> heap)" where
  "processTexture ua rnd loaded method tileFormat markSeams crop averaging outputFormat outputQuality hp =
     (case loaded of None \<Rightarrow> Inl LoadFailed
      | Some img \<Rightarrow>
        bindE (createCanvas ua (real (width img)) (real (height img)) hp) (\<lambda>((currentCanvas, ctx), hp).
        let hp = drawElement ua ctx img 0 0 hp in
        bindE (preCrop ua crop currentCanvas hp) (\<lambda>(currentCanvas, hp).
        bindE (preAveraging ua averaging currentCanvas hp) (\<lambda>(currentCanvas, hp).
        bindE (generateSeamless ua rnd method currentCanvas hp) (\<lambda>(seamlessCanvas, hp).
        bindE (generateTilePreview ua seamlessCanvas tileFormat markSeams hp) (\<lambda>(previewCanvas, hp).
        let quality = (if outputFormat = JPEG then Some (outputQuality / 100) else None) in
        Inr (\<lparr>seamlessUrl = toDataURL ua (hp ! seamlessCanvas) outputFormat quality,
               previewUrl = toDataURL ua (hp ! previewCanvas) outputFormat quality,
               result_width = width (hp ! seamlessCanvas),
               result_height = height (hp ! seamlessCanvas)\<rparr>, hp)))))))"

section \<open>Concrete inputs\<close>

text \<open>
  A user agent that always provides a context, whose blur leaves the pixels as they are
  (an agent without support for the \<open>filter\<close> property), and whose encoder returns
  the empty string.
\<close>

definition agent0 :: useragent where
  "agent0 = \<lparr>getContext2d = (\<lambda>w h. True), gaussianBlur = (\<lambda>r f. f), toDataURL = (\<lambda>s f q. [])\<rparr>"

text \<open>The pixels of a surface as a field over the plane, transparent outside the surface.\<close>

definition pixelField :: "surface \<Rightarrow> nat \<Rightarrow> nat \<Rightarrow> pixel" where
  "pixelField s = (\<lambda>X Y. if X < width s \<and> Y < height s then pix s X Y else 0)"

text \<open>An opaque image whose pixels all differ (red grows with the column, green with the row).\<close>

definition ramp :: "nat \<Rightarrow> nat \<Rightarrow> surface" where
  "ramp w h = \<lparr>width = w, height = h, pix = (\<lambda>x y. Pixel (real x / real w) (real y / real h) 0 1)\<rparr>"

text \<open>A uniform image of red at alpha one half.\<close>

definition veil :: "nat \<Rightarrow> nat \<Rightarrow> surface" where
  "veil w h = \<lparr>width = w, height = h, pix = (\<lambda>x y. Pixel (1 / 2) 0 0 (1 / 2))\<rparr>"

text \<open>
  What the four quadrant draws leave at a pixel of a blank canvas of the size of the
  image (lemma \<open>torusShift_pixels\<close> below): the image shifted by the rounded half
  extents with wrap-around, and nothing in the column and the row that no quadrant
  reaches when an extent is odd.
\<close>

definition torusPixel :: "surface \<Rightarrow> nat \<Rightarrow> nat \<Rightarrow> pixel" where
  "torusPixel img x y =
     (let hw = (width img + 1) div 2; hh = (height img + 1) div 2 in
      if (x + hw < width img \<or> hw \<le> x) \<and> (y + hh < height img \<or> hh \<le> y)
      then pix img (if x + hw < width img then x + hw else x - hw)
                   (if y + hh < height img then y + hh else y - hh)
      else 0)"

text \<open>
  A sequence of \<open>Math.random\<close> draws, the same five for every patch: on a surface 10
  by 10 they give a patch of size 4, cut at the source's corner and pasted at \<open>(-1, -1)\<close>.
\<close>

definition cornerDraws :: "nat \<Rightarrow> real" where
  "cornerDraws k = [2 / 3, 0, 0, 11 / 14, 11 / 14] ! (k mod 5)"

text \<open>The pixels of the outermost rows and columns of a surface \<open>W\<close> by \<open>H\<close>.\<close>

definition onBorder :: "nat \<Rightarrow> nat \<Rightarrow> nat \<Rightarrow> nat \<Rightarrow> bool" where
  "onBorder W H x y \<longleftrightarrow> x < W \<and> y < H \<and> (x = 0 \<or> x = W - 1 \<or> y = 0 \<or> y = H - 1)"

section \<open>The tile assembler in the order of the specification\<close>

text \<open>
  The tile assembler as the specification words it, for the comparison with
  \<open>generateTilePreview\<close>: first every cell is blitted, and only then, if \<open>markSeams\<close> is
  set, the boundary rectangle of every cell is stroked.
\<close>

definition assembleMarkersLast :: "useragent \<Rightarrow> canvas \<Rightarrow> nat \<Rightarrow> bool \<Rightarrow> heap \<Rightarrow> error + (canvas \<times> heap)" where
  "assembleMarkersLast ua textureCanvas tileFormat markSeams hp =
     (let w = real (width (hp ! textureCanvas)); h = real (height (hp ! textureCanvas));
          rows = tileFormat; cols = tileFormat in
      bindE (createCanvas ua (w * real cols) (h * real rows) hp) (\<lambda>((canvas, ctx), hp).
      bindE (forLoop 0 rows (\<lambda>r. forLoop 0 cols (\<lambda>c hp.
               drawImage3 ua ctx textureCanvas (real c * w) (real r * h) hp)) hp) (\<lambda>hp.
      bindE (forLoop 0 rows (\<lambda>r. forLoop 0 cols (\<lambda>c hp.
               Inr (if markSeams
                    then strokeRect ctx (Pixel (1 / 2) 0 0 (1 / 2)) (real c * w) (real r * h) w h hp
                    else hp))) hp) (\<lambda>hp.
      Inr (canvas, hp)))))"

section \<open>The preview pixel by pixel\<close>

text \<open>
  The state of the store while the preview is assembled from the store \<open>hp\<close>: one canvas
  more, of the size \<open>A\<close> by \<open>B\<close>, and every canvas of \<open>hp\<close> as it was.
\<close>

definition tileInv :: "heap \<Rightarrow> nat \<Rightarrow> nat \<Rightarrow> heap \<Rightarrow> bool" where
  "tileInv hp A B h \<longleftrightarrow> length h = Suc (length hp) \<and> (\<forall>k<length hp. h ! k = hp ! k)
     \<and> width (h ! length hp) = A \<and> height (h ! length hp) = B"

text \<open>
  What one blit and one boundary rectangle of the cell in row \<open>r\<close> and column \<open>c\<close> do to
  the pixel \<open>(X, Y)\<close> of the preview; \<open>P\<close> is the pixel before.
\<close>

definition cellBlit :: "surface \<Rightarrow> nat \<Rightarrow> nat \<Rightarrow> nat \<Rightarrow> nat \<Rightarrow> pixel \<Rightarrow> pixel" where
  "cellBlit tex r c X Y P =
     over (if c * width tex \<le> X \<and> X < c * width tex + width tex
              \<and> r * height tex \<le> Y \<and> Y < r * height tex + height tex
           then pix tex (X - c * width tex) (Y - r * height tex) else 0) P"

definition cellMarker :: "bool \<Rightarrow> surface \<Rightarrow> nat \<Rightarrow> nat \<Rightarrow> nat \<Rightarrow> nat \<Rightarrow> pixel \<Rightarrow> pixel" where
  "cellMarker m tex r c X Y P =
     (if m then over (scalePx (strokeCoverage (real c * real (width tex)) (real r * real (height tex))
                       (real (width tex)) (real (height tex)) X Y) (Pixel (1 / 2) 0 0 (1 / 2))) P
      else P)"

text \<open>
  The pixel \<open>(X, Y)\<close> of the preview after the first \<open>k\<close> cells in row-major order: in the
  order of \<open>generateTilePreview\<close> (each cell blitted and marked at once), after the blits
  alone, and with the markers of the first \<open>k\<close> cells drawn after all the blits.
\<close>

primrec interleavedPixel :: "surface \<Rightarrow> nat \<Rightarrow> bool \<Rightarrow> nat \<Rightarrow> nat \<Rightarrow> nat \<Rightarrow> pixel" where
  "interleavedPixel tex N m 0 X Y = 0"
| "interleavedPixel tex N m (Suc k) X Y =
     cellMarker m tex (k div N) (k mod N) X Y (cellBlit tex (k div N) (k mod N) X Y (interleavedPixel tex N m k X Y))"

primrec blitsPixel :: "surface \<Rightarrow> nat \<Rightarrow> nat \<Rightarrow> nat \<Rightarrow> nat \<Rightarrow> pixel" where
  "blitsPixel tex N 0 X Y = 0"
| "blitsPixel tex N (Suc k) X Y = cellBlit tex (k div N) (k mod N) X Y (blitsPixel tex N k X Y)"

primrec markersLastPixel :: "surface \<Rightarrow> nat \<Rightarrow> bool \<Rightarrow> nat \<Rightarrow> nat \<Rightarrow> nat \<Rightarrow> pixel" where
  "markersLastPixel tex N m 0 X Y = blitsPixel tex N (N * N) X Y"
| "markersLastPixel tex N m (Suc k) X Y =
     cellMarker m tex (k div N) (k mod N) X Y (markersLastPixel tex N m k X Y)"

text \<open>
  The same state of the store, with the pixels of the preview given by \<open>f\<close>.
\<close>

definition tilePix :: "heap \<Rightarrow> nat \<Rightarrow> nat \<Rightarrow> (nat \<Rightarrow> nat \<Rightarrow> pixel) \<Rightarrow> heap \<Rightarrow> bool" where
  "tilePix hp A B f h \<longleftrightarrow> tileInv hp A B h
     \<and> (\<forall>X Y. pix (h ! length hp) X Y = (if X < A \<and> Y < B then f X Y else 0))"

section \<open>Basic facts\<close>

lemma scalePx_simps: "scalePx 0 p = 0" "scalePx 1 p = p" "scalePx k 0 = 0"
  by (cases p; simp add: scalePx_def zero_pixel_def)+

lemma over_zero: "over 0 d = d" "over s 0 = s"
  by (cases d; cases s; simp add: over_def scalePx_def zero_pixel_def plus_pixel_def)+


lemma bindE_Inr_iff: "bindE m f = Inr r \<longleftrightarrow> (\<exists>a. m = Inr a \<and> f a = Inr r)"
  by (cases m) (simp_all add: bindE_def)

lemma bindE_simps: "bindE (Inr a) f = f a" "bindE (Inl e) f = Inl e"
  by (simp_all add: bindE_def)

lemma createCanvas_Inr_iff:
  "createCanvas ua w h hp = Inr r \<longleftrightarrow>
     getContext2d ua (nat \<lfloor>w\<rfloor>) (nat \<lfloor>h\<rfloor>) \<and>
     r = ((length hp, newContext (length hp)), hp @ [blank (nat \<lfloor>w\<rfloor>) (nat \<lfloor>h\<rfloor>)])"
  by (auto simp: createCanvas_def Let_def)

lemma drawImage9_Inr_iff:
  "drawImage9 ua ctx img sx sy sw sh dx dy dw dh hp = Inr hp' \<longleftrightarrow>
     width (hp ! img) \<noteq> 0 \<and> height (hp ! img) \<noteq> 0 \<and>
     hp' = (if sw = 0 \<or> sh = 0 then hp
            else hp[target ctx := paintImage ua ctx (hp ! img) sx sy sw sh dx dy dw dh (hp ! target ctx)])"
  by (auto simp: drawImage9_def)

lemma paintImage_simps:
  "width (paintImage ua ctx img sx sy sw sh dx dy dw dh dst) = width dst"
  "height (paintImage ua ctx img sx sy sw sh dx dy dw dh dst) = height dst"
  "pix (paintImage ua ctx img sx sy sw sh dx dy dw dh dst) X Y =
     (if X < width dst \<and> Y < height dst
      then compose (compositeOp ctx)
             (scalePx (globalAlpha ctx) (filtered ua ctx (rasterImage ctx img sx sy sw sh dx dy dw dh) X Y))
             (pix dst X Y)
      else pix dst X Y)"
  by (simp_all add: paintImage_def)

lemma ctx_simps:
  "target (newContext c) = c" "ctmA (newContext c) = 1" "ctmE (newContext c) = 0"
  "ctmD (newContext c) = 1" "ctmF (newContext c) = 0" "globalAlpha (newContext c) = 1"
  "compositeOp (newContext c) = SourceOver" "filterBlur (newContext c) = None"
  "target (scale kx ky ctx) = target ctx" "target (translate tx ty ctx) = target ctx"
  "globalAlpha (scale kx ky ctx) = globalAlpha ctx" "globalAlpha (translate tx ty ctx) = globalAlpha ctx"
  "compositeOp (scale kx ky ctx) = compositeOp ctx" "compositeOp (translate tx ty ctx) = compositeOp ctx"
  "filterBlur (scale kx ky ctx) = filterBlur ctx" "filterBlur (translate tx ty ctx) = filterBlur ctx"
  "ctmA (scale kx ky ctx) = ctmA ctx * kx" "ctmD (scale kx ky ctx) = ctmD ctx * ky"
  "ctmE (scale kx ky ctx) = ctmE ctx" "ctmF (scale kx ky ctx) = ctmF ctx"
  "ctmA (translate tx ty ctx) = ctmA ctx" "ctmD (translate tx ty ctx) = ctmD ctx"
  "ctmE (translate tx ty ctx) = ctmA ctx * tx + ctmE ctx" "ctmF (translate tx ty ctx) = ctmD ctx * ty + ctmF ctx"
  by (simp_all add: newContext_def scale_def translate_def)

lemma blank_simps: "width (blank w h) = w" "height (blank w h) = h" "pix (blank w h) x y = 0"
  by (simp_all add: blank_def)

lemma agent0_simps: "getContext2d agent0 w h" "gaussianBlur agent0 r f = f"
  by (simp_all add: agent0_def)

lemma fixture_simps:
  "width (ramp w h) = w" "height (ramp w h) = h" "pix (ramp w h) x y = Pixel (real x / real w) (real y / real h) 0 1"
  "width (veil w h) = w" "height (veil w h) = h" "pix (veil w h) x y = Pixel (1 / 2) 0 0 (1 / 2)"
  by (simp_all add: ramp_def veil_def)

section \<open>Unscaled draws at whole coordinates are exact copies\<close>

lemma wt_unit:
  "wt n (of_int a) (of_int b) 1 (of_int c) X i =
     (if a \<le> int i \<and> int i < a + b \<and> i < n \<and> int i + c = int X then 1 else 0)"
proof -
  define lo where "lo = max (max a 0) (int i)"
  define hi where "hi = min (min (a + b) (int n)) (int i + 1)"
  have lo: "max (max (real_of_int a) 0) (real i) = of_int lo"
    by (simp add: lo_def)
  have hi: "min (min (real_of_int a + of_int b) (real n)) (real i + 1) = of_int hi"
    by (simp add: hi_def)
  have e: "wt n (of_int a) (of_int b) 1 (of_int c) X i =
      (if hi \<le> lo then 0 else of_int (max 0 (min (hi + c) (int X + 1) - max (lo + c) (int X))))"
  proof (cases "hi \<le> lo")
    case True
    then show ?thesis unfolding wt_def Let_def lo hi by simp
  next
    case False
    then show ?thesis unfolding wt_def Let_def lo hi by (simp add: ov_def)
  qed
  show ?thesis unfolding e by (auto simp: lo_def hi_def max_def min_def)
qed

lemma sum_pick:
  fixes f :: "nat \<Rightarrow> 'a::comm_monoid_add"
  assumes "\<And>i. i < n \<Longrightarrow> i \<noteq> k \<Longrightarrow> f i = 0"
  shows "(\<Sum>i<n. f i) = (if k < n then f k else 0)"
proof (cases "k < n")
  case True
  have "(\<Sum>i<n. f i) = (\<Sum>i\<in>{k}. f i)"
    by (rule sum.mono_neutral_right) (use True assms in auto)
  then show ?thesis using True by simp
next
  case False
  then have "(\<Sum>i<n. f i) = 0" by (intro sum.neutral) (use assms in auto)
  then show ?thesis using False by simp
qed

lemma rasterImage_unit:
  assumes ctm: "ctmA ctx = 1" "ctmE ctx = 0" "ctmD ctx = 1" "ctmF ctx = 0"
    and nz: "sw \<noteq> 0" "sh \<noteq> 0"
  shows "rasterImage ctx img (of_int sx) (of_int sy) (of_int sw) (of_int sh)
           (of_int dx) (of_int dy) (of_int sw) (of_int sh) X Y =
     (if sx \<le> int X - dx + sx \<and> int X - dx + sx < sx + sw \<and> 0 \<le> int X - dx + sx \<and> int X - dx + sx < int (width img) \<and>
         sy \<le> int Y - dy + sy \<and> int Y - dy + sy < sy + sh \<and> 0 \<le> int Y - dy + sy \<and> int Y - dy + sy < int (height img)
      then pix img (nat (int X - dx + sx)) (nat (int Y - dy + sy)) else 0)"
proof -
  define i0 where "i0 = int X - dx + sx"
  define j0 where "j0 = int Y - dy + sy"
  define wx where "wx i = wt (width img) (of_int sx) (of_int sw) 1 (of_int (dx - sx)) X i" for i
  define wy where "wy j = wt (height img) (of_int sy) (of_int sh) 1 (of_int (dy - sy)) Y j" for j
  have wx: "wx i = (if sx \<le> int i \<and> int i < sx + sw \<and> i < width img \<and> int i = i0 then 1 else 0)" for i
    unfolding wx_def wt_unit i0_def by auto
  have wy: "wy j = (if sy \<le> int j \<and> int j < sy + sh \<and> j < height img \<and> int j = j0 then 1 else 0)" for j
    unfolding wy_def wt_unit j0_def by auto
  have r: "rasterImage ctx img (of_int sx) (of_int sy) (of_int sw) (of_int sh)
           (of_int dx) (of_int dy) (of_int sw) (of_int sh) X Y =
        (\<Sum>i<width img. \<Sum>j<height img. scalePx (wx i * wy j) (pix img i j))"
    using nz by (simp add: rasterImage_def ctm wx_def wy_def slope_def offset_def)
  have inner: "(\<Sum>j<height img. scalePx (wx i * wy j) (pix img i j)) =
      (if nat j0 < height img then scalePx (wx i * wy (nat j0)) (pix img i (nat j0)) else 0)" for i
    by (rule sum_pick) (auto simp: wy scalePx_simps)
  have outer: "(\<Sum>i<width img. \<Sum>j<height img. scalePx (wx i * wy j) (pix img i j)) =
      (if nat i0 < width img
       then (if nat j0 < height img then scalePx (wx (nat i0) * wy (nat j0)) (pix img (nat i0) (nat j0)) else 0)
       else 0)"
    unfolding inner by (rule sum_pick) (auto simp: wx scalePx_simps)
  show ?thesis
    unfolding r outer i0_def [symmetric] j0_def [symmetric]
    by (auto simp: wx wy scalePx_simps)
qed

lemma rasterImage_whole:
  assumes ctm: "ctmA ctx = 1" "ctmE ctx = 0" "ctmD ctx = 1" "ctmF ctx = 0"
    and dims: "width img = w" "height img = h" and nz: "w \<noteq> 0" "h \<noteq> 0"
  shows "rasterImage ctx img 0 0 (real w) (real h) (of_int dx) (of_int dy) (real w) (real h) X Y =
     (if dx \<le> int X \<and> int X < dx + int w \<and> dy \<le> int Y \<and> int Y < dy + int h
      then pix img (nat (int X - dx)) (nat (int Y - dy)) else 0)"
  using rasterImage_unit [OF ctm, of "int w" "int h" img 0 0 dx dy X Y] nz dims
  by auto

lemma rasterImage_identity:
  assumes ctm: "ctmA ctx = 1" "ctmE ctx = 0" "ctmD ctx = 1" "ctmF ctx = 0"
    and dims: "width img = w" "height img = h" and nz: "w \<noteq> 0" "h \<noteq> 0"
  shows "rasterImage ctx img 0 0 (real w) (real h) 0 0 (real w) (real h) = pixelField img"
  using rasterImage_whole [OF ctm dims nz, of 0 0] dims
  by (intro ext) (auto simp: pixelField_def)

lemma set_simps:
  "target (setGlobalAlpha v ctx) = target ctx" "ctmA (setGlobalAlpha v ctx) = ctmA ctx"
  "ctmE (setGlobalAlpha v ctx) = ctmE ctx" "ctmD (setGlobalAlpha v ctx) = ctmD ctx"
  "ctmF (setGlobalAlpha v ctx) = ctmF ctx" "compositeOp (setGlobalAlpha v ctx) = compositeOp ctx"
  "filterBlur (setGlobalAlpha v ctx) = filterBlur ctx"
  "globalAlpha (setGlobalAlpha v ctx) = (if 0 \<le> v \<and> v \<le> 1 then v else globalAlpha ctx)"
  "target (setFilterBlur r ctx) = target ctx" "ctmA (setFilterBlur r ctx) = ctmA ctx"
  "ctmE (setFilterBlur r ctx) = ctmE ctx" "ctmD (setFilterBlur r ctx) = ctmD ctx"
  "ctmF (setFilterBlur r ctx) = ctmF ctx" "compositeOp (setFilterBlur r ctx) = compositeOp ctx"
  "globalAlpha (setFilterBlur r ctx) = globalAlpha ctx"
  "filterBlur (setFilterBlur r ctx) = (if 0 \<le> r then Some r else filterBlur ctx)"
  by (simp_all add: setGlobalAlpha_def setFilterBlur_def)

lemma over_opaque: "alpha s = 1 \<Longrightarrow> over s d = s"
  by (simp add: over_def scalePx_simps)


section \<open>Pre-processing: the degenerate crop and the averaging at intensity 0\<close>

text \<open>
  C5. When the crop leaves no column or no row (\<open>left + right \<ge> width\<close> or
  \<open>top + bottom \<ge> height\<close>), the pre-crop step of the pipeline succeeds and hands on
  the very canvas it was given, in an unchanged store: nothing is allocated, nothing
  is drawn and no exception is raised.
\<close>

theorem degenerate_crop_is_noop:
  assumes "int (width (hp ! cur)) \<le> left crop + right crop
         \<or> int (height (hp ! cur)) \<le> top crop + bottom crop"
  shows "preCrop ua crop cur hp = Inr (cur, hp)"
  using assms by (auto simp: preCrop_def applyCrop_def bindE_def Let_def)

theorem degenerate_crop_is_noop_witness:
  "preCrop agent0 \<lparr>top = 0, bottom = 0, left = 3, right = 2\<rparr> 0 [blank 4 6] = Inr (0, [blank 4 6])"
  using degenerate_crop_is_noop [of "[blank 4 6]" 0 "\<lparr>top = 0, bottom = 0, left = 3, right = 2\<rparr>" agent0]
  by (simp add: blank_simps)

text \<open>
  C9. At intensity 0 the averaging is a no-op, in \<open>applyAveraging\<close> itself and in the
  pipeline's step around it: the result is the canvas that was passed in and the store
  is unchanged, so no canvas is allocated and the blur is never invoked.
\<close>

theorem averaging_zero_is_noop:
  "applyAveraging ua cv (settings\<lparr>intensity := 0\<rparr>) hp = Inr (cv, hp)
   \<and> preAveraging ua (settings\<lparr>intensity := 0\<rparr>) cv hp = Inr (cv, hp)"
  by (simp add: applyAveraging_def preAveraging_def)

section \<open>Averaging at full intensity\<close>




section \<open>Footprints and reflections of a draw\<close>

lemma ov_reflect: "ov (c - b) (c - a) x (x + 1) = ov a b (c - x - 1) (c - x)"
  by (simp add: ov_def max_def min_def)

lemma wt_flip:
  assumes "X < n"
  shows "wt n s l (- m) (real n) X i = wt n s l m 0 (n - Suc X) i"
proof -
  have X: "real (n - Suc X) = real n - real X - 1"
    using assms by (simp add: of_nat_diff)
  have "ov (min (- m * lo + real n) (- m * hi + real n)) (max (- m * lo + real n) (- m * hi + real n))
            (real X) (real X + 1)
        = ov (min (m * lo + 0) (m * hi + 0)) (max (m * lo + 0) (m * hi + 0))
            (real (n - Suc X)) (real (n - Suc X) + 1)" for lo hi
  proof -
    have "min (- m * lo + real n) (- m * hi + real n) = real n - max (m * lo) (m * hi)"
      "max (- m * lo + real n) (- m * hi + real n) = real n - min (m * lo) (m * hi)"
      by (simp_all add: max_def min_def)
    then show ?thesis
      using ov_reflect [of "real n" "max (m * lo) (m * hi)" "min (m * lo) (m * hi)" "real X"]
      by (simp add: X)
  qed
  then show ?thesis
    unfolding wt_def Let_def by simp
qed

lemma wt_cases:
  "wt n s l m t X i =
     (if min (min (s + l) (real n)) (real i + 1) \<le> max (max s 0) (real i) then 0
      else ov (min (m * max (max s 0) (real i) + t) (m * min (min (s + l) (real n)) (real i + 1) + t))
              (max (m * max (max s 0) (real i) + t) (m * min (min (s + l) (real n)) (real i + 1) + t))
              (real X) (real X + 1))"
  unfolding wt_def Let_def ..

lemma ov_zero_right: "b \<le> c \<Longrightarrow> ov a b c d = 0"
  unfolding ov_def by linarith

lemma ov_zero_left: "d \<le> a \<Longrightarrow> ov a b c d = 0"
  unfolding ov_def by linarith

lemma wt_zero_right:
  assumes "0 \<le> m" and "m * min (s + l) (real n) + t \<le> real X"
  shows "wt n s l m t X i = 0"
proof -
  define lo where "lo = max (max s 0) (real i)"
  define hi where "hi = min (min (s + l) (real n)) (real i + 1)"
  have w: "wt n s l m t X i = (if hi \<le> lo then 0
      else ov (min (m * lo + t) (m * hi + t)) (max (m * lo + t) (m * hi + t)) (real X) (real X + 1))"
    unfolding wt_cases lo_def hi_def ..
  show ?thesis
  proof (cases "hi \<le> lo")
    case True
    then show ?thesis unfolding w by simp
  next
    case False
    have "hi \<le> min (s + l) (real n)" unfolding hi_def by linarith
    then have "m * hi \<le> m * min (s + l) (real n)"
      using assms(1) by (intro mult_left_mono)
    moreover have "m * lo \<le> m * hi"
      using assms(1) False by (intro mult_left_mono) simp_all
    ultimately have "max (m * lo + t) (m * hi + t) \<le> real X"
      using assms(2) by linarith
    then show ?thesis unfolding w using False by (simp add: ov_zero_right)
  qed
qed

lemma wt_zero_left:
  assumes "0 \<le> m" and "real X + 1 \<le> m * max s 0 + t"
  shows "wt n s l m t X i = 0"
proof -
  define lo where "lo = max (max s 0) (real i)"
  define hi where "hi = min (min (s + l) (real n)) (real i + 1)"
  have w: "wt n s l m t X i = (if hi \<le> lo then 0
      else ov (min (m * lo + t) (m * hi + t)) (max (m * lo + t) (m * hi + t)) (real X) (real X + 1))"
    unfolding wt_cases lo_def hi_def ..
  show ?thesis
  proof (cases "hi \<le> lo")
    case True
    then show ?thesis unfolding w by simp
  next
    case False
    have "max s 0 \<le> lo" unfolding lo_def by linarith
    then have "m * max s 0 \<le> m * lo"
      using assms(1) by (intro mult_left_mono)
    moreover have "m * lo \<le> m * hi"
      using assms(1) False by (intro mult_left_mono) simp_all
    ultimately have "real X + 1 \<le> min (m * lo + t) (m * hi + t)"
      using assms(2) by linarith
    then show ?thesis unfolding w using False by (simp add: ov_zero_left)
  qed
qed

lemma rasterImage_outside_x:
  assumes "\<And>i. wt (width img) sx sw (slope (ctmA ctx) sw dw) (offset (ctmA ctx) (ctmE ctx) sx sw dx dw) X i = 0"
  shows "rasterImage ctx img sx sy sw sh dx dy dw dh X Y = 0"
  by (simp add: rasterImage_def assms scalePx_simps)

lemma rasterImage_outside_y:
  assumes "\<And>j. wt (height img) sy sh (slope (ctmD ctx) sh dh) (offset (ctmD ctx) (ctmF ctx) sy sh dy dh) Y j = 0"
  shows "rasterImage ctx img sx sy sw sh dx dy dw dh X Y = 0"
  by (simp add: rasterImage_def assms scalePx_simps)

lemma slope_neg: "slope (- a) l dl = - slope a l dl"
  by (simp add: slope_def)

lemma offset_origin: "offset a e 0 l 0 dl = e"
  by (simp add: offset_def)

lemma rasterImage_flip_x:
  assumes "ctmA ctx' = - ctmA ctx" "ctmE ctx' = real (width img)" "ctmE ctx = 0"
    "ctmD ctx' = ctmD ctx" "ctmF ctx' = ctmF ctx" "X < width img"
  shows "rasterImage ctx' img 0 sy sw sh 0 dy dw dh X Y = rasterImage ctx img 0 sy sw sh 0 dy dw dh (width img - Suc X) Y"
  unfolding rasterImage_def assms(1-5) slope_neg offset_origin wt_flip [OF assms(6)] ..

lemma rasterImage_flip_y:
  assumes "ctmD ctx' = - ctmD ctx" "ctmF ctx' = real (height img)" "ctmF ctx = 0"
    "ctmA ctx' = ctmA ctx" "ctmE ctx' = ctmE ctx" "Y < height img"
  shows "rasterImage ctx' img sx 0 sw sh dx 0 dw dh X Y = rasterImage ctx img sx 0 sw sh dx 0 dw dh X (height img - Suc Y)"
  unfolding rasterImage_def assms(1-5) slope_neg offset_origin wt_flip [OF assms(6)] ..


section \<open>The mirrored strategy\<close>

lemma generateMirrored_run:
  assumes ua: "getContext2d ua W H" and src: "src < length hp"
    and dims: "width (hp ! src) = W" "height (hp ! src) = H" "0 < W" "0 < H"
  shows "\<exists>S. generateMirrored ua src hp = Inr (length hp, hp @ [S]) \<and> width S = W \<and> height S = H \<and>
     (\<forall>X<W. \<forall>Y<H. pix S X Y =
        over (rasterImage (scale (- 1) (- 1) (translate (real W) (real H) (newContext (length hp)))) (hp ! src)
                0 0 (real W) (real H) 0 0 (real W / 2) (real H / 2) X Y)
       (over (rasterImage (scale 1 (- 1) (translate 0 (real H) (newContext (length hp)))) (hp ! src)
                0 0 (real W) (real H) 0 0 (real W / 2) (real H / 2) X Y)
       (over (rasterImage (scale (- 1) 1 (translate (real W) 0 (newContext (length hp)))) (hp ! src)
                0 0 (real W) (real H) 0 0 (real W / 2) (real H / 2) X Y)
             (rasterImage (newContext (length hp)) (hp ! src)
                0 0 (real W) (real H) 0 0 (real W / 2) (real H / 2) X Y))))"
  using assms
  by (simp add: generateMirrored_def Let_def createCanvas_def bindE_simps drawImage9_def nth_append
      paintImage_simps ctx_simps blank_simps scalePx_simps over_zero filtered_def)


lemma half_far_x:
  assumes "2 \<le> width img" "ctmA ctx = 1" "ctmE ctx = 0"
  shows "rasterImage ctx img 0 sy (real (width img)) sh 0 dy (real (width img) / 2) dh (width img - Suc 0) Y = 0"
proof (rule rasterImage_outside_x, rule wt_zero_right)
  show "0 \<le> slope (ctmA ctx) (real (width img)) (real (width img) / 2)"
    by (simp add: slope_def assms)
  show "slope (ctmA ctx) (real (width img)) (real (width img) / 2) * min (0 + real (width img)) (real (width img))
      + offset (ctmA ctx) (ctmE ctx) 0 (real (width img)) 0 (real (width img) / 2) \<le> real (width img - Suc 0)"
    using assms by (simp add: slope_def offset_def)
qed

lemma half_far_y:
  assumes "2 \<le> height img" "ctmD ctx = 1" "ctmF ctx = 0"
  shows "rasterImage ctx img sx 0 sw (real (height img)) dx 0 dw (real (height img) / 2) X (height img - Suc 0) = 0"
proof (rule rasterImage_outside_y, rule wt_zero_right)
  show "0 \<le> slope (ctmD ctx) (real (height img)) (real (height img) / 2)"
    by (simp add: slope_def assms)
  show "slope (ctmD ctx) (real (height img)) (real (height img) / 2) * min (0 + real (height img)) (real (height img))
      + offset (ctmD ctx) (ctmF ctx) 0 (real (height img)) 0 (real (height img) / 2) \<le> real (height img - Suc 0)"
    using assms by (simp add: slope_def offset_def)
qed

text \<open>
  C2. On every surface with at least one pixel, under a user agent that provides the
  context, the Mirrored strategy returns a canvas of the size of its input whose first
  column equals its last column and whose first row equals its last row, pixel for
  pixel: the four draws are reflections of one another about the centre lines.
\<close>

theorem mirrored_wrap_is_exact:
  assumes ua: "\<forall>w h. getContext2d ua w h" and src: "src < length hp"
    and pos: "0 < width (hp ! src)" "0 < height (hp ! src)"
  shows "\<exists>c hp'. generateMirrored ua src hp = Inr (c, hp')
     \<and> width (hp' ! c) = width (hp ! src) \<and> height (hp' ! c) = height (hp ! src)
     \<and> (\<forall>y<height (hp ! src). pix (hp' ! c) 0 y = pix (hp' ! c) (width (hp ! src) - 1) y)
     \<and> (\<forall>x<width (hp ! src). pix (hp' ! c) x 0 = pix (hp' ! c) x (height (hp ! src) - 1))"
proof -
  define W where "W = width (hp ! src)"
  define H where "H = height (hp ! src)"
  define img where "img = hp ! src"
  define c0 where "c0 = newContext (length hp)"
  define cx where "cx = scale (- 1) 1 (translate (real W) 0 c0)"
  define cy where "cy = scale 1 (- 1) (translate 0 (real H) c0)"
  define cxy where "cxy = scale (- 1) (- 1) (translate (real W) (real H) c0)"
  define R where "R ctx X Y = rasterImage ctx img 0 0 (real W) (real H) 0 0 (real W / 2) (real H / 2) X Y" for ctx X Y
  have wh: "width img = W" "height img = H" by (simp_all add: img_def W_def H_def)
  from generateMirrored_run [of ua W H src hp] ua src pos
  obtain S where run: "generateMirrored ua src hp = Inr (length hp, hp @ [S])"
    and S: "width S = W" "height S = H"
    and px: "\<And>X Y. X < W \<Longrightarrow> Y < H \<Longrightarrow>
          pix S X Y = over (R cxy X Y) (over (R cy X Y) (over (R cx X Y) (R c0 X Y)))"
    unfolding R_def cx_def cy_def cxy_def c0_def img_def W_def H_def by blast
  have fx: "R cx X Y = R c0 (W - Suc X) Y" if "X < W" for X Y
    unfolding R_def using that rasterImage_flip_x [of cx c0 img X]
    by (simp add: cx_def c0_def ctx_simps wh)
  have fy: "R cy X Y = R c0 X (H - Suc Y)" if "Y < H" for X Y
    unfolding R_def using that rasterImage_flip_y [of cy c0 img Y]
    by (simp add: cy_def c0_def ctx_simps wh)
  have fxy: "R cxy X Y = R c0 (W - Suc X) (H - Suc Y)" if "X < W" "Y < H" for X Y
  proof -
    have "R cxy X Y = R cy (W - Suc X) Y"
      unfolding R_def using that rasterImage_flip_x [of cxy cy img X]
      by (simp add: cxy_def cy_def c0_def ctx_simps wh)
    then show ?thesis using fy [OF that(2)] by simp
  qed
  have zx: "R c0 (W - Suc 0) Y = 0" if "2 \<le> W" for Y
    unfolding R_def using that half_far_x [of img c0] by (simp add: c0_def ctx_simps wh)
  have zy: "R c0 X (H - Suc 0) = 0" if "2 \<le> H" for X
    unfolding R_def using that half_far_y [of img c0] by (simp add: c0_def ctx_simps wh)
  have cols: "pix S 0 y = pix S (W - 1) y" if "y < H" for y
  proof (cases "2 \<le> W")
    case True
    then have "0 < W" "W - 1 < W" "W - Suc (W - 1) = 0" by simp_all
    then show ?thesis
      using that True by (simp add: px fx fy fxy zx over_zero)
  next
    case False
    then have "W - 1 = 0" by simp
    then show ?thesis by simp
  qed
  have rows: "pix S x 0 = pix S x (H - 1)" if "x < W" for x
  proof (cases "2 \<le> H")
    case True
    then have "0 < H" "H - 1 < H" "H - Suc (H - 1) = 0" by simp_all
    then show ?thesis
      using that True by (simp add: px fx fy fxy zy over_zero)
  next
    case False
    then have "H - 1 = 0" by simp
    then show ?thesis by simp
  qed
  show ?thesis
    unfolding run using S cols rows src
    by (simp add: W_def [symmetric] H_def [symmetric])
qed

theorem mirrored_wrap_is_exact_witness:
  "\<exists>c hp'. generateMirrored agent0 0 [ramp 4 2] = Inr (c, hp')
     \<and> width (hp' ! c) = 4 \<and> height (hp' ! c) = 2
     \<and> pix (hp' ! c) 0 1 = pix (hp' ! c) 3 1 \<and> pix (hp' ! c) 2 0 = pix (hp' ! c) 2 1"
proof -
  obtain c hp' where run: "generateMirrored agent0 0 [ramp 4 2] = Inr (c, hp')"
    and d: "width (hp' ! c) = 4" "height (hp' ! c) = 2"
    and cols: "\<forall>y<2. pix (hp' ! c) 0 y = pix (hp' ! c) (4 - 1) y"
    and rows: "\<forall>x<4. pix (hp' ! c) x 0 = pix (hp' ! c) x (2 - 1)"
    using mirrored_wrap_is_exact [of agent0 0 "[ramp 4 2]"]
    by (auto simp: agent0_simps fixture_simps)
  have "pix (hp' ! c) 0 1 = pix (hp' ! c) 3 1" using cols [rule_format, of 1] by simp
  moreover have "pix (hp' ! c) 2 0 = pix (hp' ! c) 2 1" using rows [rule_format, of 2] by simp
  ultimately show ?thesis using run d by blast
qed

section \<open>The scattered strategy\<close>

lemma jsRound_half: "jsRound (real n / 2) = of_int ((int n + 1) div 2)"
proof -
  have "real n / 2 + 1 / 2 = real_of_int (int n + 1) / real_of_int 2" by simp
  then show ?thesis
    unfolding jsRound_def by (simp only: floor_divide_of_int_eq)
qed

lemma slope_unit: "l \<noteq> 0 \<Longrightarrow> slope 1 l l = 1"
  by (simp add: slope_def)

lemma offset_unit: "l \<noteq> 0 \<Longrightarrow> offset 1 0 s l d l = d - s"
  by (simp add: offset_def)

lemma rasterImage_update_simps:
  "rasterImage (ctx\<lparr>compositeOp := op\<rparr>) = rasterImage ctx"
  "rasterImage (ctx\<lparr>fillStyle := fs\<rparr>) = rasterImage ctx"
  "rasterImage (setGlobalAlpha v ctx) = rasterImage ctx"
  "rasterImage (setFilterBlur r ctx) = rasterImage ctx"
  by (intro ext; simp add: rasterImage_def set_simps)+

lemma generateScattered_run:
  assumes ua: "\<forall>w h. getContext2d ua w h" and src: "src < length hp"
    and dims: "width (hp ! src) = W" "height (hp ! src) = H" "2 \<le> W" "2 \<le> H"
    and hw: "jsRound (real W / 2) = hW" "jsRound (real H / 2) = hH" "hW \<noteq> 0" "hH \<noteq> 0"
    and pw: "nat \<lfloor>real W * (7 / 10)\<rfloor> = pw" "nat \<lfloor>real H * (7 / 10)\<rfloor> = ph" "0 < pw" "0 < ph"
  shows "\<exists>S M P. generateScattered ua src hp = Inr (length hp, hp @ [S, M, P])
     \<and> width S = W \<and> height S = H \<and> width P = pw \<and> height P = ph
     \<and> (\<forall>X<W. \<forall>Y<H. pix S X Y =
          over (rasterImage (newContext (length hp)) P 0 0 (real pw) (real ph)
                  ((real W - real W * (7 / 10)) / 2) ((real H - real H * (7 / 10)) / 2) (real pw) (real ph) X Y)
         (over (rasterImage (newContext (length hp)) (hp ! src) hW hH hW hH 0 0 hW hH X Y)
         (over (rasterImage (newContext (length hp)) (hp ! src) 0 hH hW hH hW 0 hW hH X Y)
         (over (rasterImage (newContext (length hp)) (hp ! src) hW 0 hW hH 0 hH hW hH X Y)
               (rasterImage (newContext (length hp)) (hp ! src) 0 0 hW hH hW hH hW hH X Y)))))"
  using assms
  apply (simp add: generateScattered_def torusShift_def drawQuadrant_def quadrant_def Let_def createCanvas_def
      bindE_simps drawImage9_def drawImage3_def fillRect_def nth_append list_update_append
      paintImage_simps ctx_simps blank_simps scalePx_simps over_zero filtered_def rasterImage_update_simps)
  done


lemma jsRound_half_nat: "jsRound (real n / 2) = real ((n + 1) div 2)"
proof -
  have "(int n + 1) div 2 = int ((n + 1) div 2)" by (simp add: zdiv_int)
  then show ?thesis unfolding jsRound_half by simp
qed

lemma torusShift_pixels:
  assumes ctm: "ctmA ctx = 1" "ctmE ctx = 0" "ctmD ctx = 1" "ctmF ctx = 0"
    and dims: "width img = W" "height img = H" and xy: "X < W" "Y < H"
    and hw: "hW = jsRound (real W / 2)" "hH = jsRound (real H / 2)"
  shows "over (rasterImage ctx img hW hH hW hH 0 0 hW hH X Y)
        (over (rasterImage ctx img 0 hH hW hH hW 0 hW hH X Y)
        (over (rasterImage ctx img hW 0 hW hH 0 hH hW hH X Y)
              (rasterImage ctx img 0 0 hW hH hW hH hW hH X Y))) = torusPixel img X Y"
proof -
  define n where "n = (W + 1) div 2"
  define m where "m = (H + 1) div 2"
  have n: "hW = of_int (int n)" and m: "hH = of_int (int m)"
    by (simp_all add: hw jsRound_half_nat n_def m_def)
  have pos: "int n \<noteq> 0" "int m \<noteq> 0" using xy by (simp_all add: n_def m_def)
  have bnd: "W \<le> n + n" "H \<le> m + m" "n \<le> W" "m \<le> H" using xy unfolding n_def m_def by linarith+
  have q0: "rasterImage ctx img 0 0 hW hH hW hH hW hH X Y =
      (if n \<le> X \<and> m \<le> Y then pix img (X - n) (Y - m) else 0)"
    unfolding n m using rasterImage_unit [OF ctm pos, of img 0 0 "int n" "int m" X Y] bnd xy dims
    by (auto simp: nat_diff_distrib' simp flip: of_nat_diff)
  have q1: "rasterImage ctx img hW 0 hW hH 0 hH hW hH X Y =
      (if X + n < W \<and> m \<le> Y then pix img (X + n) (Y - m) else 0)"
    unfolding n m using rasterImage_unit [OF ctm pos, of img "int n" 0 0 "int m" X Y] bnd xy dims
    by (auto simp: nat_diff_distrib' nat_add_distrib)
  have q2: "rasterImage ctx img 0 hH hW hH hW 0 hW hH X Y =
      (if n \<le> X \<and> Y + m < H then pix img (X - n) (Y + m) else 0)"
    unfolding n m using rasterImage_unit [OF ctm pos, of img 0 "int m" "int n" 0 X Y] bnd xy dims
    by (auto simp: nat_diff_distrib' nat_add_distrib)
  have q3: "rasterImage ctx img hW hH hW hH 0 0 hW hH X Y =
      (if X + n < W \<and> Y + m < H then pix img (X + n) (Y + m) else 0)"
    unfolding n m using rasterImage_unit [OF ctm pos, of img "int n" "int m" 0 0 X Y] bnd xy dims
    by (auto simp: nat_diff_distrib' nat_add_distrib)
  show ?thesis
    unfolding q0 q1 q2 q3 torusPixel_def Let_def dims n_def [symmetric] m_def [symmetric]
    using bnd xy by (auto simp: over_zero)
qed


section \<open>The border of the scattered output and the gap at odd sizes\<close>

lemma rasterImage_translated_outside:
  assumes ctm: "ctmA ctx = 1" "ctmE ctx = 0" "ctmD ctx = 1" "ctmF ctx = 0"
    and dims: "width P = pw" "height P = ph" "pw \<noteq> 0" "ph \<noteq> 0"
    and out: "real X + 1 \<le> bx \<or> bx + real pw \<le> real X \<or> real Y + 1 \<le> by \<or> by + real ph \<le> real Y"
  shows "rasterImage ctx P 0 0 (real pw) (real ph) bx by (real pw) (real ph) X Y = 0"
proof -
  have sx: "slope (ctmA ctx) (real pw) (real pw) = 1" "offset (ctmA ctx) (ctmE ctx) 0 (real pw) bx (real pw) = bx"
    and sy: "slope (ctmD ctx) (real ph) (real ph) = 1" "offset (ctmD ctx) (ctmF ctx) 0 (real ph) by (real ph) = by"
    using dims by (simp_all add: ctm slope_def offset_def)
  consider "real X + 1 \<le> bx" | "bx + real pw \<le> real X" | "real Y + 1 \<le> by" | "by + real ph \<le> real Y"
    using out by blast
  then show ?thesis
  proof cases
    case 1
    show ?thesis
      by (rule rasterImage_outside_x, unfold sx dims, rule wt_zero_left) (use 1 in simp_all)
  next
    case 2
    show ?thesis
      by (rule rasterImage_outside_x, unfold sx dims, rule wt_zero_right) (use 2 in simp_all)
  next
    case 3
    show ?thesis
      by (rule rasterImage_outside_y, unfold sy dims, rule wt_zero_left) (use 3 in simp_all)
  next
    case 4
    show ?thesis
      by (rule rasterImage_outside_y, unfold sy dims, rule wt_zero_right) (use 4 in simp_all)
  qed
qed

lemma blend_margin:
  assumes "7 \<le> n"
  shows "1 \<le> (real n - real n * (7 / 10)) / 2"
    and "(real n - real n * (7 / 10)) / 2 + real (nat \<lfloor>real n * (7 / 10)\<rfloor>) \<le> real (n - 1)"
    and "0 < nat \<lfloor>real n * (7 / 10)\<rfloor>"
proof -
  have n: "7 \<le> real n" using assms by simp
  then show "1 \<le> (real n - real n * (7 / 10)) / 2" by simp
  have "real_of_int \<lfloor>real n * (7 / 10)\<rfloor> \<le> real n * (7 / 10)" by (rule of_int_floor_le)
  moreover have "0 \<le> \<lfloor>real n * (7 / 10)\<rfloor>" by simp
  moreover have "real (n - 1) = real n - 1" using assms by (simp add: of_nat_diff)
  ultimately show "(real n - real n * (7 / 10)) / 2 + real (nat \<lfloor>real n * (7 / 10)\<rfloor>) \<le> real (n - 1)"
    using n by simp
  have "1 \<le> \<lfloor>real n * (7 / 10)\<rfloor>" using n by (simp add: le_floor_iff)
  then show "0 < nat \<lfloor>real n * (7 / 10)\<rfloor>" by simp
qed


lemma patch_extent_pos: "2 \<le> n \<Longrightarrow> 0 < nat \<lfloor>real n * (7 / 10)\<rfloor>"
proof -
  assume "2 \<le> n"
  then have "2 \<le> real n" by simp
  then have "1 \<le> \<lfloor>real n * (7 / 10)\<rfloor>" by (simp add: le_floor_iff)
  then show ?thesis by simp
qed

lemma generateScattered_result:
  assumes ua: "\<forall>w h. getContext2d ua w h" and src: "src < length hp"
    and big: "2 \<le> width (hp ! src)" "2 \<le> height (hp ! src)"
  shows "\<exists>S M P. generateScattered ua src hp = Inr (length hp, hp @ [S, M, P])
     \<and> width S = width (hp ! src) \<and> height S = height (hp ! src)
     \<and> (7 \<le> width (hp ! src) \<and> 7 \<le> height (hp ! src) \<longrightarrow>
          (\<forall>x y. onBorder (width (hp ! src)) (height (hp ! src)) x y \<longrightarrow> pix S x y = torusPixel (hp ! src) x y))"
proof -
  define W where "W = width (hp ! src)"
  define H where "H = height (hp ! src)"
  define hW where "hW = jsRound (real W / 2)"
  define hH where "hH = jsRound (real H / 2)"
  define pw where "pw = nat \<lfloor>real W * (7 / 10)\<rfloor>"
  define ph where "ph = nat \<lfloor>real H * (7 / 10)\<rfloor>"
  define c0 where "c0 = newContext (length hp)"
  have WH: "2 \<le> W" "2 \<le> H" using big by (simp_all add: W_def H_def)
  have h0: "hW \<noteq> 0" "hH \<noteq> 0" using WH by (simp_all add: hW_def hH_def jsRound_half_nat)
  have p0: "0 < pw" "0 < ph" using WH by (simp_all add: pw_def ph_def patch_extent_pos)
  from generateScattered_run [OF ua src, of W H hW hH pw ph] WH h0 p0
  obtain S M P where run: "generateScattered ua src hp = Inr (length hp, hp @ [S, M, P])"
    and S: "width S = W" "height S = H" and P: "width P = pw" "height P = ph"
    and px: "\<And>X Y. X < W \<Longrightarrow> Y < H \<Longrightarrow> pix S X Y =
          over (rasterImage c0 P 0 0 (real pw) (real ph)
                  ((real W - real W * (7 / 10)) / 2) ((real H - real H * (7 / 10)) / 2) (real pw) (real ph) X Y)
         (over (rasterImage c0 (hp ! src) hW hH hW hH 0 0 hW hH X Y)
         (over (rasterImage c0 (hp ! src) 0 hH hW hH hW 0 hW hH X Y)
         (over (rasterImage c0 (hp ! src) hW 0 hW hH 0 hH hW hH X Y)
               (rasterImage c0 (hp ! src) 0 0 hW hH hW hH hW hH X Y))))"
    unfolding W_def H_def hW_def hH_def pw_def ph_def c0_def by blast
  have border: "pix S x y = torusPixel (hp ! src) x y" if big7: "7 \<le> W" "7 \<le> H" and b: "onBorder W H x y" for x y
  proof -
    have xy: "x < W" "y < H" using b by (simp_all add: onBorder_def)
    have edge: "real x + 1 \<le> (real W - real W * (7 / 10)) / 2
        \<or> (real W - real W * (7 / 10)) / 2 + real pw \<le> real x
        \<or> real y + 1 \<le> (real H - real H * (7 / 10)) / 2
        \<or> (real H - real H * (7 / 10)) / 2 + real ph \<le> real y"
      using b blend_margin(1,2) [OF big7(1)] blend_margin(1,2) [OF big7(2)]
      unfolding onBorder_def pw_def ph_def by auto
    have "rasterImage c0 P 0 0 (real pw) (real ph)
            ((real W - real W * (7 / 10)) / 2) ((real H - real H * (7 / 10)) / 2) (real pw) (real ph) x y = 0"
      using p0 by (intro rasterImage_translated_outside P edge) (simp_all add: c0_def ctx_simps)
    moreover have "over (rasterImage c0 (hp ! src) hW hH hW hH 0 0 hW hH x y)
         (over (rasterImage c0 (hp ! src) 0 hH hW hH hW 0 hW hH x y)
         (over (rasterImage c0 (hp ! src) hW 0 hW hH 0 hH hW hH x y)
               (rasterImage c0 (hp ! src) 0 0 hW hH hW hH hW hH x y))) = torusPixel (hp ! src) x y"
      by (rule torusShift_pixels [OF _ _ _ _ _ _ xy]) (simp_all add: c0_def ctx_simps W_def H_def hW_def hH_def)
    ultimately show ?thesis using px [OF xy] by (simp add: over_zero)
  qed
  show ?thesis
    using run S border unfolding W_def [symmetric] H_def [symmetric] by blast
qed


text \<open>
  C4. The four quadrant draws do not tile a surface of odd width or height. The half
  extents are \<open>Math.round(W / 2)\<close> and \<open>Math.round(H / 2)\<close>, rounded upwards, and all
  four draws have that one extent; the source rectangles of the right and the lower
  quadrants then reach beyond the image and are clipped together with their destinations,
  and the middle column and the middle row are written by no draw. On the opaque ramp 9
  by 9 the top row of the output has the input's pixels \<open>(8, 5)\<close> and \<open>(0, 5)\<close> in the
  columns 3 and 5 and a transparent pixel between them, in column 4.
\<close>

theorem odd_size_leaves_a_gap:
  "(case generateScattered agent0 0 [ramp 9 9] of
      Inl e \<Rightarrow> False
    | Inr (c, hp') \<Rightarrow>
        pix (hp' ! c) 3 0 = Pixel (8 / 9) (5 / 9) 0 1
      \<and> pix (hp' ! c) 4 0 = Pixel 0 0 0 0
      \<and> pix (hp' ! c) 5 0 = Pixel 0 (5 / 9) 0 1)"
proof -
  have b: "onBorder 9 9 3 0" "onBorder 9 9 4 0" "onBorder 9 9 5 0" by (simp_all add: onBorder_def)
  from generateScattered_result [of agent0 0 "[ramp 9 9]"]
  obtain S M P where r: "generateScattered agent0 0 [ramp 9 9] = Inr (Suc 0, [ramp 9 9, S, M, P])"
    and p: "\<forall>x y. onBorder 9 9 x y \<longrightarrow> pix S x y = torusPixel (ramp 9 9) x y"
    by (auto simp: agent0_simps fixture_simps)
  show ?thesis
    unfolding r using p [rule_format, OF b(1)] p [rule_format, OF b(2)] p [rule_format, OF b(3)]
    by (simp add: torusPixel_def fixture_simps zero_pixel_def)
qed

section \<open>Loops over the store\<close>

lemma forLoop_invariant:
  assumes step: "\<And>j h. i \<le> j \<Longrightarrow> j < n \<Longrightarrow> I j h \<Longrightarrow> \<exists>h'. body j h = Inr h' \<and> I (Suc j) h'"
    and init: "I i hp" and le: "i \<le> n"
  shows "\<exists>hp'. forLoop i n body hp = Inr hp' \<and> I n hp'"
  using init le step
proof (induction "n - i" arbitrary: i hp)
  case 0
  then have "i = n" by simp
  with 0 show ?case by simp
next
  case (Suc d)
  then have lt: "i < n" by simp
  from Suc.prems(3) [of i hp] lt Suc.prems(1)
  obtain h' where h': "body i hp = Inr h'" "I (Suc i) h'" by auto
  have "\<exists>hp'. forLoop (Suc i) n body h' = Inr hp' \<and> I n hp'"
  proof (rule Suc.hyps(1))
    show "d = n - Suc i" using Suc.hyps(2) by simp
    show "I (Suc i) h'" by (rule h')
    show "Suc i \<le> n" using lt by simp
    show "\<exists>h'. body j h = Inr h' \<and> I (Suc j) h'" if "Suc i \<le> j" "j < n" "I j h" for j h
      using Suc.prems(3) [of j h] that by simp
  qed
  then show ?case using lt h' by (simp add: bindE_simps)
qed

lemma forLoop_preserves:
  assumes step: "\<And>j h h'. j < n \<Longrightarrow> I h \<Longrightarrow> body j h = Inr h' \<Longrightarrow> I h'"
    and init: "I hp" and run: "forLoop i n body hp = Inr hp'"
  shows "I hp'"
  using init run
proof (induction "n - i" arbitrary: i hp)
  case 0
  then show ?case by simp
next
  case (Suc d)
  then have lt: "i < n" by simp
  from Suc.prems(2) lt obtain h where h: "body i hp = Inr h" "forLoop (Suc i) n body h = Inr hp'"
    by (auto simp: bindE_Inr_iff)
  have "I h" using step [OF lt Suc.prems(1) h(1)] .
  moreover have "d = n - Suc i" using Suc.hyps(2) by simp
  ultimately show ?case using Suc.hyps(1) h(2) by blast
qed

section \<open>The patch-based strategy\<close>

lemma fillRect_simps:
  "length (fillRect ctx x y w h hp) = length hp"
  "k \<noteq> target ctx \<Longrightarrow> fillRect ctx x y w h hp ! k = hp ! k"
  "target ctx < length hp \<Longrightarrow> width (fillRect ctx x y w h hp ! target ctx) = width (hp ! target ctx)"
  "target ctx < length hp \<Longrightarrow> height (fillRect ctx x y w h hp ! target ctx) = height (hp ! target ctx)"
  by (simp_all add: fillRect_def split: option.splits)

lemma splatPatch_result:
  assumes ua: "\<forall>w h. getContext2d ua w h" and src: "src < length hp" and cv: "cv < length hp"
    and nz: "0 < width (hp ! src)" "0 < height (hp ! src)" and sz: "1 \<le> sz" "nat \<lfloor>sz\<rfloor> = p"
  shows "\<exists>hp'. splatPatch ua src (newContext cv) sz sx sy dx dy hp = Inr hp'
     \<and> length hp' = Suc (length hp) \<and> (\<forall>k<length hp. k \<noteq> cv \<longrightarrow> hp' ! k = hp ! k)
     \<and> width (hp' ! cv) = width (hp ! cv) \<and> height (hp' ! cv) = height (hp ! cv)
     \<and> width (hp' ! length hp) = p \<and> height (hp' ! length hp) = p
     \<and> (\<forall>X<width (hp ! cv). \<forall>Y<height (hp ! cv). pix (hp' ! cv) X Y =
          over (rasterImage (newContext cv) (hp' ! length hp) 0 0 (real p) (real p) dx dy (real p) (real p) X Y)
               (pix (hp ! cv) X Y))"
proof -
  have p: "0 < p" using sz by (auto simp: le_floor_iff)
  have s0: "sz \<noteq> 0" using sz by simp
  show ?thesis
    using ua src cv nz p s0 sz(2)
    by (simp add: splatPatch_def Let_def createCanvas_def bindE_simps drawImage9_def drawImage3_def
        nth_append list_update_append fillRect_def
        paintImage_simps ctx_simps blank_simps scalePx_simps over_zero filtered_def rasterImage_update_simps)
qed


lemma baseStep_result:
  assumes ua: "\<forall>w h. getContext2d ua w h" and src: "src < length hp" and cv: "cv < length hp"
    and dims: "width (hp ! src) = W" "height (hp ! src) = H" "width (hp ! cv) = W" "height (hp ! cv) = H"
    and big: "2 \<le> W" "2 \<le> H"
  shows "\<exists>hp'. bindE (generateScattered ua src hp) (\<lambda>(base, hp). drawImage3 ua (newContext cv) base 0 0 hp) = Inr hp'
     \<and> length hp \<le> length hp' \<and> (\<forall>k<length hp. k \<noteq> cv \<longrightarrow> hp' ! k = hp ! k)
     \<and> width (hp' ! cv) = W \<and> height (hp' ! cv) = H
     \<and> (7 \<le> W \<and> 7 \<le> H \<longrightarrow>
          (\<forall>x y. onBorder W H x y \<longrightarrow> pix (hp' ! cv) x y = over (torusPixel (hp ! src) x y) (pix (hp ! cv) x y)))"
proof -
  from generateScattered_result [OF ua src] dims big
  obtain S M P where run: "generateScattered ua src hp = Inr (length hp, hp @ [S, M, P])"
    and S: "width S = W" "height S = H"
    and border: "7 \<le> W \<and> 7 \<le> H \<longrightarrow> (\<forall>x y. onBorder W H x y \<longrightarrow> pix S x y = torusPixel (hp ! src) x y)"
    by auto
  have W0: "W \<noteq> 0" "H \<noteq> 0" using big by simp_all
  have ri: "rasterImage (newContext cv) S 0 0 (real W) (real H) 0 0 (real W) (real H) = pixelField S"
    by (rule rasterImage_identity) (simp_all add: ctx_simps S W0)
  show ?thesis
    unfolding run using cv dims S W0 border
    by (simp add: bindE_simps drawImage3_def drawImage9_def nth_append list_update_append
        paintImage_simps ctx_simps scalePx_simps filtered_def ri pixelField_def onBorder_def)
qed

lemma unit_scale_bounds:
  fixes r a :: real
  assumes "0 \<le> r" "r < 1"
  shows "min 0 a \<le> r * a" and "r * a \<le> max 0 a"
proof -
  show "min 0 a \<le> r * a"
  proof (cases "0 \<le> a")
    case True
    then have "0 \<le> r * a" using assms by simp
    then show ?thesis using True by simp
  next
    case False
    then have "(1 - r) * a \<le> 0" using assms by (simp add: mult_nonneg_nonpos)
    then have "a \<le> r * a" by (simp add: algebra_simps)
    then show ?thesis using False by simp
  qed
  show "r * a \<le> max 0 a"
  proof (cases "0 \<le> a")
    case True
    then have "(1 - r) * a \<ge> 0" using assms by simp
    then have "r * a \<le> a" by (simp add: algebra_simps)
    then show ?thesis using True by simp
  next
    case False
    then have "r * a \<le> 0" using assms by (simp add: mult_nonneg_nonpos)
    then show ?thesis by simp
  qed
qed

lemma patch_size_bounds:
  fixes m r :: real
  assumes "0 \<le> m" "0 \<le> r" "r < 1"
  shows "m * (2 / 10) \<le> m * (2 / 10) + r * (m * (5 / 10) - m * (2 / 10))"
    and "m * (2 / 10) + r * (m * (5 / 10) - m * (2 / 10)) \<le> m * (5 / 10)"
  using unit_scale_bounds [OF assms(2,3), of "m * (5 / 10) - m * (2 / 10)"] assms(1)
  by simp_all

lemma patch_margin:
  fixes W m sz r :: real
  assumes "22 \<le> W" "m \<le> W" "sz \<le> m * (5 / 10)" "0 \<le> sz" "0 \<le> r" "r < 1"
  shows "1 \<le> 10 + r * (W - sz - 20)"
    and "10 + r * (W - sz - 20) + real (nat \<lfloor>sz\<rfloor>) \<le> W - 1"
proof -
  have b: "min 0 (W - sz - 20) \<le> r * (W - sz - 20)" "r * (W - sz - 20) \<le> max 0 (W - sz - 20)"
    using unit_scale_bounds [OF assms(5,6)] by simp_all
  show "1 \<le> 10 + r * (W - sz - 20)" using b(1) assms(1-4) by linarith
  have "real_of_int \<lfloor>sz\<rfloor> \<le> sz" by (rule of_int_floor_le)
  moreover have "0 \<le> \<lfloor>sz\<rfloor>" using assms(4) by simp
  ultimately have "real (nat \<lfloor>sz\<rfloor>) \<le> sz" by simp
  then show "10 + r * (W - sz - 20) + real (nat \<lfloor>sz\<rfloor>) \<le> W - 1" using b(2) assms(1-4) by linarith
qed


lemma patchStep_result:
  assumes ua: "\<forall>w h. getContext2d ua w h" and src: "src < length hp" and cv: "cv < length hp" "src \<noteq> cv"
    and dims: "width (hp ! src) = W" "height (hp ! src) = H" "width (hp ! cv) = W" "height (hp ! cv) = H"
    and big: "5 \<le> W" "5 \<le> H" and rnd: "\<forall>k. 0 \<le> rnd k \<and> rnd k < 1"
  shows "\<exists>hp'. patchStep ua rnd src (newContext cv) (real W) (real H) i hp = Inr hp'
     \<and> length hp \<le> length hp' \<and> (\<forall>k<length hp. k \<noteq> cv \<longrightarrow> hp' ! k = hp ! k)
     \<and> width (hp' ! cv) = W \<and> height (hp' ! cv) = H
     \<and> (22 \<le> W \<and> 22 \<le> H \<longrightarrow>
          (\<forall>x y. onBorder W H x y \<longrightarrow>
             pix (hp' ! cv) x y =
               (if i = 0 then over (torusPixel (hp ! src) x y) (pix (hp ! cv) x y) else pix (hp ! cv) x y)))"
proof -
  define m where "m = min (real W) (real H)"
  define sz where "sz = m * (2 / 10) + rnd (5 * i) * (m * (5 / 10) - m * (2 / 10))"
  define sx where "sx = rnd (5 * i + 1) * (real W - sz)"
  define sy where "sy = rnd (5 * i + 2) * (real H - sz)"
  define dx where "dx = 10 + rnd (5 * i + 3) * (real W - sz - 20)"
  define dy where "dy = 10 + rnd (5 * i + 4) * (real H - sz - 20)"
  define p where "p = nat \<lfloor>sz\<rfloor>"
  have m5: "5 \<le> m" "m \<le> real W" "m \<le> real H" using big by (simp_all add: m_def)
  have szb: "m * (2 / 10) \<le> sz" "sz \<le> m * (5 / 10)"
    unfolding sz_def using patch_size_bounds [of m "rnd (5 * i)"] m5(1) rnd by simp_all
  have sz1: "1 \<le> sz" using szb(1) m5(1) by simp
  have p0: "p \<noteq> 0" using sz1 by (auto simp: p_def le_floor_iff)
  have ps: "patchStep ua rnd src (newContext cv) (real W) (real H) i hp =
      bindE (if i = 0
             then bindE (generateScattered ua src hp) (\<lambda>(base, hp). drawImage3 ua (newContext cv) base 0 0 hp)
             else Inr hp) (\<lambda>hp. splatPatch ua src (newContext cv) sz sx sy dx dy hp)"
    by (simp add: patchStep_def Let_def sz_def sx_def sy_def dx_def dy_def m_def)
  have "\<exists>hp1. (if i = 0
             then bindE (generateScattered ua src hp) (\<lambda>(base, hp). drawImage3 ua (newContext cv) base 0 0 hp)
             else Inr hp) = Inr hp1
     \<and> length hp \<le> length hp1 \<and> (\<forall>k<length hp. k \<noteq> cv \<longrightarrow> hp1 ! k = hp ! k)
     \<and> width (hp1 ! cv) = W \<and> height (hp1 ! cv) = H
     \<and> (22 \<le> W \<and> 22 \<le> H \<longrightarrow>
          (\<forall>x y. onBorder W H x y \<longrightarrow>
             pix (hp1 ! cv) x y =
               (if i = 0 then over (torusPixel (hp ! src) x y) (pix (hp ! cv) x y) else pix (hp ! cv) x y)))"
  proof (cases "i = 0")
    case True
    from baseStep_result [OF ua src cv(1) dims] big
    show ?thesis unfolding True by auto
  next
    case False
    then show ?thesis using dims by simp
  qed
  then obtain hp1 where A: "(if i = 0
             then bindE (generateScattered ua src hp) (\<lambda>(base, hp). drawImage3 ua (newContext cv) base 0 0 hp)
             else Inr hp) = Inr hp1"
    and len1: "length hp \<le> length hp1" and fr1: "\<And>k. k < length hp \<Longrightarrow> k \<noteq> cv \<Longrightarrow> hp1 ! k = hp ! k"
    and d1: "width (hp1 ! cv) = W" "height (hp1 ! cv) = H"
    and b1: "\<And>x y. 22 \<le> W \<Longrightarrow> 22 \<le> H \<Longrightarrow> onBorder W H x y \<Longrightarrow>
             pix (hp1 ! cv) x y =
               (if i = 0 then over (torusPixel (hp ! src) x y) (pix (hp ! cv) x y) else pix (hp ! cv) x y)"
    by blast
  have src1: "src < length hp1" "cv < length hp1" using src cv len1 by simp_all
  have s1: "hp1 ! src = hp ! src" using fr1 [OF src cv(2)] .
  from splatPatch_result [OF ua src1, of sz p sx sy dx dy] sz1 dims big
  obtain hp2 where B: "splatPatch ua src (newContext cv) sz sx sy dx dy hp1 = Inr hp2"
    and len2: "length hp2 = Suc (length hp1)"
    and fr2: "\<And>k. k < length hp1 \<Longrightarrow> k \<noteq> cv \<Longrightarrow> hp2 ! k = hp1 ! k"
    and d2: "width (hp2 ! cv) = W" "height (hp2 ! cv) = H"
    and P: "width (hp2 ! length hp1) = p" "height (hp2 ! length hp1) = p"
    and px: "\<And>X Y. X < W \<Longrightarrow> Y < H \<Longrightarrow> pix (hp2 ! cv) X Y =
          over (rasterImage (newContext cv) (hp2 ! length hp1) 0 0 (real p) (real p) dx dy (real p) (real p) X Y)
               (pix (hp1 ! cv) X Y)"
    unfolding s1 d1 p_def by auto
  have border: "pix (hp2 ! cv) x y = pix (hp1 ! cv) x y" if W22: "22 \<le> W" "22 \<le> H" and b: "onBorder W H x y" for x y
  proof -
    have xy: "x < W" "y < H" using b by (simp_all add: onBorder_def)
    have r: "0 \<le> rnd (5 * i + 3)" "rnd (5 * i + 3) < 1" "0 \<le> rnd (5 * i + 4)" "rnd (5 * i + 4) < 1"
      using rnd by simp_all
    have sz0: "0 \<le> sz" using sz1 by simp
    have W22r: "22 \<le> real W" "22 \<le> real H" using W22 by simp_all
    have mx: "1 \<le> dx" "dx + real p \<le> real W - 1"
      unfolding dx_def p_def using patch_margin [OF W22r(1) m5(2) szb(2) sz0 r(1,2)] by simp_all
    have my: "1 \<le> dy" "dy + real p \<le> real H - 1"
      unfolding dy_def p_def using patch_margin [OF W22r(2) m5(3) szb(2) sz0 r(3,4)] by simp_all
    have W1: "real (W - 1) = real W - 1" "real (H - 1) = real H - 1" using W22 by (simp_all add: of_nat_diff)
    have edge: "real x + 1 \<le> dx \<or> dx + real p \<le> real x \<or> real y + 1 \<le> dy \<or> dy + real p \<le> real y"
      using b mx my W1 unfolding onBorder_def by auto
    have "rasterImage (newContext cv) (hp2 ! length hp1) 0 0 (real p) (real p) dx dy (real p) (real p) x y = 0"
      using p0 by (intro rasterImage_translated_outside P edge) (simp_all add: ctx_simps)
    then show ?thesis using px [OF xy] by (simp add: over_zero)
  qed
  have "patchStep ua rnd src (newContext cv) (real W) (real H) i hp = Inr hp2"
    unfolding ps A by (simp add: bindE_simps B)
  moreover have "length hp \<le> length hp2" using len1 len2 by simp
  moreover have "\<forall>k<length hp. k \<noteq> cv \<longrightarrow> hp2 ! k = hp ! k"
    using fr1 fr2 len1 by auto
  moreover have "22 \<le> W \<and> 22 \<le> H \<longrightarrow>
          (\<forall>x y. onBorder W H x y \<longrightarrow>
             pix (hp2 ! cv) x y =
               (if i = 0 then over (torusPixel (hp ! src) x y) (pix (hp ! cv) x y) else pix (hp ! cv) x y))"
    using border b1 by simp
  ultimately show ?thesis using d2 by blast
qed


lemma generatePatchBased_result:
  assumes ua: "\<forall>w h. getContext2d ua w h" and src: "src < length hp"
    and big: "5 \<le> width (hp ! src)" "5 \<le> height (hp ! src)" and rnd: "\<forall>k. 0 \<le> rnd k \<and> rnd k < 1"
  shows "\<exists>hp'. generatePatchBased ua rnd src hp = Inr (length hp, hp')
     \<and> length hp < length hp' \<and> (\<forall>k<length hp. hp' ! k = hp ! k)
     \<and> width (hp' ! length hp) = width (hp ! src) \<and> height (hp' ! length hp) = height (hp ! src)
     \<and> (22 \<le> width (hp ! src) \<and> 22 \<le> height (hp ! src) \<longrightarrow>
          (\<forall>x y. onBorder (width (hp ! src)) (height (hp ! src)) x y \<longrightarrow>
             pix (hp' ! length hp) x y = over (torusPixel (hp ! src) x y) (pix (hp ! src) x y)))"
proof -
  let ?W = "width (hp ! src)" and ?H = "height (hp ! src)" and ?img = "hp ! src" and ?cv = "length hp"
  let ?C0 = "paintImage ua (newContext ?cv) ?img 0 0 (real ?W) (real ?H) 0 0 (real ?W) (real ?H) (blank ?W ?H)"
  let ?body = "patchStep ua rnd src (newContext ?cv) (real ?W) (real ?H)"
  define I where "I j h \<longleftrightarrow> length hp < length h \<and> (\<forall>k<length hp. h ! k = hp ! k)
     \<and> width (h ! ?cv) = ?W \<and> height (h ! ?cv) = ?H
     \<and> (22 \<le> ?W \<and> 22 \<le> ?H \<longrightarrow>
          (\<forall>x y. onBorder ?W ?H x y \<longrightarrow>
             pix (h ! ?cv) x y = (if j = 0 then pix ?img x y else over (torusPixel ?img x y) (pix ?img x y))))"
    for j :: nat and h :: heap
  have W0: "?W \<noteq> 0" "?H \<noteq> 0" using big by simp_all
  have gp: "generatePatchBased ua rnd src hp = bindE (forLoop 0 30 ?body (hp @ [?C0])) (\<lambda>h. Inr (?cv, h))"
    using ua src W0
    by (simp add: generatePatchBased_def Let_def createCanvas_def bindE_simps drawImage3_def drawImage9_def
        nth_append blank_simps ctx_simps del: forLoop.simps)
  have ri: "rasterImage (newContext ?cv) ?img 0 0 (real ?W) (real ?H) 0 0 (real ?W) (real ?H) = pixelField ?img"
    by (rule rasterImage_identity) (simp_all add: ctx_simps W0)
  have init: "I 0 (hp @ [?C0])"
    unfolding I_def
    by (simp add: nth_append paintImage_simps blank_simps ctx_simps filtered_def ri
        scalePx_simps over_zero pixelField_def onBorder_def)
  have step: "\<exists>h'. ?body j h = Inr h' \<and> I (Suc j) h'" if "I j h" for j h
  proof -
    have h: "length hp < length h" "\<And>k. k < length hp \<Longrightarrow> h ! k = hp ! k"
      "width (h ! ?cv) = ?W" "height (h ! ?cv) = ?H"
      and hb: "\<And>x y. 22 \<le> ?W \<Longrightarrow> 22 \<le> ?H \<Longrightarrow> onBorder ?W ?H x y \<Longrightarrow>
             pix (h ! ?cv) x y = (if j = 0 then pix ?img x y else over (torusPixel ?img x y) (pix ?img x y))"
      using that unfolding I_def by auto
    have hs: "src < length h" "?cv < length h" "src \<noteq> ?cv" "h ! src = ?img"
      using h(1,2) src by simp_all
    have ds: "width (h ! src) = ?W" "height (h ! src) = ?H" using hs(4) by simp_all
    from patchStep_result [OF ua hs(1,2,3) ds h(3,4) big rnd, of j] hs(4)
    obtain h' where r: "?body j h = Inr h'"
      and l: "length h \<le> length h'" and f: "\<And>k. k < length h \<Longrightarrow> k \<noteq> ?cv \<Longrightarrow> h' ! k = h ! k"
      and d: "width (h' ! ?cv) = ?W" "height (h' ! ?cv) = ?H"
      and b: "\<And>x y. 22 \<le> ?W \<Longrightarrow> 22 \<le> ?H \<Longrightarrow> onBorder ?W ?H x y \<Longrightarrow>
             pix (h' ! ?cv) x y = (if j = 0 then over (torusPixel ?img x y) (pix (h ! ?cv) x y) else pix (h ! ?cv) x y)"
      by auto
    have "I (Suc j) h'"
      unfolding I_def using l f d b hb h by auto
    then show ?thesis using r by blast
  qed
  from forLoop_invariant [of 0 30 I ?body "hp @ [?C0]"] step init
  obtain hp' where run: "forLoop 0 30 ?body (hp @ [?C0]) = Inr hp'"
    and fin: "I 30 hp'" by auto
  show ?thesis
    unfolding gp run using fin
    by (simp add: bindE_simps I_def)
qed

section \<open>The borders of the scattered and the patch-based outputs\<close>

lemma torusPixel_even:
  assumes "even (width img)" "even (height img)" "x < width img" "y < height img"
  shows "torusPixel img x y = pix img ((x + width img div 2) mod width img) ((y + height img div 2) mod height img)"
proof -
  have h: "(width img + 1) div 2 = width img div 2" "(height img + 1) div 2 = height img div 2"
    using assms(1,2) by presburger+
  have w: "width img div 2 + width img div 2 = width img" "height img div 2 + height img div 2 = height img"
    using assms(1,2) by presburger+
  have mx: "(x + width img div 2) mod width img =
      (if x + width img div 2 < width img then x + width img div 2 else x - width img div 2)"
    using assms(3) w(1) by (auto simp: mod_if not_less le_mod_geq)
  have my: "(y + height img div 2) mod height img =
      (if y + height img div 2 < height img then y + height img div 2 else y - height img div 2)"
    using assms(4) w(2) by (auto simp: mod_if not_less le_mod_geq)
  show ?thesis
    unfolding torusPixel_def Let_def h mx my using w assms(3,4) by auto
qed


text \<open>
  C1 (as amended). The opposite edges of the Scattered output are not equal: they are
  adjacent lines of the input. On a surface of even width and height, at least 8 each,
  the Scattered strategy returns a canvas whose border is the input shifted by half
  the width and half the height with wrap-around: the left column is the input's column
  \<open>W / 2\<close> and the right column is the input's column \<open>W / 2 - 1\<close>, the top row
  is the input's row \<open>H / 2\<close> and the bottom row is the input's row \<open>H / 2 - 1\<close>.
  On a surface of even width and height, at least 22 each, the PatchBased strategy
  returns for every sequence of random draws a canvas whose border is that shifted
  input composited source-over onto the input's own border.
\<close>

theorem opposite_edges_are_adjacent_source_lines:
  assumes ua: "\<forall>w h. getContext2d ua w h" and src: "src < length hp"
    and ev: "even (width (hp ! src))" "even (height (hp ! src))"
  shows "(8 \<le> width (hp ! src) \<and> 8 \<le> height (hp ! src) \<longrightarrow>
           (\<exists>c hp'. generateScattered ua src hp = Inr (c, hp')
              \<and> (\<forall>x y. onBorder (width (hp ! src)) (height (hp ! src)) x y \<longrightarrow>
                    pix (hp' ! c) x y =
                      pix (hp ! src) ((x + width (hp ! src) div 2) mod width (hp ! src))
                                     ((y + height (hp ! src) div 2) mod height (hp ! src)))))
       \<and> (22 \<le> width (hp ! src) \<and> 22 \<le> height (hp ! src) \<and> (\<forall>k. 0 \<le> rnd k \<and> rnd k < 1) \<longrightarrow>
           (\<exists>c hp'. generatePatchBased ua rnd src hp = Inr (c, hp')
              \<and> (\<forall>x y. onBorder (width (hp ! src)) (height (hp ! src)) x y \<longrightarrow>
                    pix (hp' ! c) x y =
                      over (pix (hp ! src) ((x + width (hp ! src) div 2) mod width (hp ! src))
                                           ((y + height (hp ! src) div 2) mod height (hp ! src)))
                           (pix (hp ! src) x y))))"
proof (intro conjI impI)
  let ?W = "width (hp ! src)" and ?H = "height (hp ! src)"
  have tp: "torusPixel (hp ! src) x y = pix (hp ! src) ((x + ?W div 2) mod ?W) ((y + ?H div 2) mod ?H)"
    if "onBorder ?W ?H x y" for x y
    using that torusPixel_even [OF ev] by (simp add: onBorder_def)
  {
    assume big: "8 \<le> ?W \<and> 8 \<le> ?H"
    from generateScattered_result [OF ua src] big
    obtain S M P where "generateScattered ua src hp = Inr (length hp, hp @ [S, M, P])"
      and "\<forall>x y. onBorder ?W ?H x y \<longrightarrow> pix S x y = torusPixel (hp ! src) x y"
      by auto
    then show "\<exists>c hp'. generateScattered ua src hp = Inr (c, hp')
              \<and> (\<forall>x y. onBorder ?W ?H x y \<longrightarrow>
                    pix (hp' ! c) x y = pix (hp ! src) ((x + ?W div 2) mod ?W) ((y + ?H div 2) mod ?H))"
      using tp by auto
  }
  {
    assume big: "22 \<le> ?W \<and> 22 \<le> ?H \<and> (\<forall>k. 0 \<le> rnd k \<and> rnd k < 1)"
    from generatePatchBased_result [OF ua src, of rnd] big
    obtain hp' where "generatePatchBased ua rnd src hp = Inr (length hp, hp')"
      and "\<forall>x y. onBorder ?W ?H x y \<longrightarrow>
             pix (hp' ! length hp) x y = over (torusPixel (hp ! src) x y) (pix (hp ! src) x y)"
      by auto
    then show "\<exists>c hp'. generatePatchBased ua rnd src hp = Inr (c, hp')
              \<and> (\<forall>x y. onBorder ?W ?H x y \<longrightarrow>
                    pix (hp' ! c) x y =
                      over (pix (hp ! src) ((x + ?W div 2) mod ?W) ((y + ?H div 2) mod ?H)) (pix (hp ! src) x y))"
      using tp by auto
  }
qed

theorem opposite_edges_are_adjacent_source_lines_witness:
  "(\<exists>c hp'. generateScattered agent0 0 [ramp 8 8] = Inr (c, hp')
      \<and> pix (hp' ! c) 0 3 = pix (ramp 8 8) 4 7 \<and> pix (hp' ! c) 7 3 = pix (ramp 8 8) 3 7)
   \<and> (\<exists>c hp'. generatePatchBased agent0 (\<lambda>k. 1 / 2) 0 [ramp 22 22] = Inr (c, hp')
      \<and> pix (hp' ! c) 0 3 = over (pix (ramp 22 22) 11 14) (pix (ramp 22 22) 0 3))"
proof -
  have b8: "onBorder 8 8 0 3" "onBorder 8 8 7 3" and b22: "onBorder 22 22 0 3"
    by (simp_all add: onBorder_def)
  from opposite_edges_are_adjacent_source_lines [of agent0 0 "[ramp 8 8]" "\<lambda>k. 1 / 2"]
  obtain c hp' where r: "generateScattered agent0 0 [ramp 8 8] = Inr (c, hp')"
    and p: "\<forall>x y. onBorder 8 8 x y \<longrightarrow> pix (hp' ! c) x y = pix (ramp 8 8) ((x + 8 div 2) mod 8) ((y + 8 div 2) mod 8)"
    by (auto simp: agent0_simps fixture_simps)
  have one: "\<exists>c hp'. generateScattered agent0 0 [ramp 8 8] = Inr (c, hp')
      \<and> pix (hp' ! c) 0 3 = pix (ramp 8 8) 4 7 \<and> pix (hp' ! c) 7 3 = pix (ramp 8 8) 3 7"
    using r p [rule_format, OF b8(1)] p [rule_format, OF b8(2)] by simp
  from opposite_edges_are_adjacent_source_lines [of agent0 0 "[ramp 22 22]" "\<lambda>k. 1 / 2"]
  obtain c hp' where r: "generatePatchBased agent0 (\<lambda>k. 1 / 2) 0 [ramp 22 22] = Inr (c, hp')"
    and p: "\<forall>x y. onBorder 22 22 x y \<longrightarrow> pix (hp' ! c) x y =
        over (pix (ramp 22 22) ((x + 22 div 2) mod 22) ((y + 22 div 2) mod 22)) (pix (ramp 22 22) x y)"
    by (auto simp: agent0_simps fixture_simps)
  have two: "\<exists>c hp'. generatePatchBased agent0 (\<lambda>k. 1 / 2) 0 [ramp 22 22] = Inr (c, hp')
      \<and> pix (hp' ! c) 0 3 = over (pix (ramp 22 22) 11 14) (pix (ramp 22 22) 0 3)"
    using r p [rule_format, OF b22] by simp
  show ?thesis using one two by blast
qed

text \<open>
  On the ramp 8 by 8 the Scattered output has the input's pixel \<open>(4, 4)\<close> in its left
  column and the input's pixel \<open>(3, 4)\<close> in its right column, at row 0: the two edge
  columns differ.
\<close>

theorem scattered_edges_differ_counterexample:
  "(case generateScattered agent0 0 [ramp 8 8] of
      Inl e \<Rightarrow> False
    | Inr (c, hp') \<Rightarrow>
        pix (hp' ! c) 0 0 = Pixel (1 / 2) (1 / 2) 0 1 \<and> pix (hp' ! c) 7 0 = Pixel (3 / 8) (1 / 2) 0 1)"
proof -
  have b: "onBorder 8 8 0 0" "onBorder 8 8 7 0" by (simp_all add: onBorder_def)
  from generateScattered_result [of agent0 0 "[ramp 8 8]"]
  obtain S M P where r: "generateScattered agent0 0 [ramp 8 8] = Inr (Suc 0, [ramp 8 8, S, M, P])"
    and p: "\<forall>x y. onBorder 8 8 x y \<longrightarrow> pix S x y = torusPixel (ramp 8 8) x y"
    by (auto simp: agent0_simps fixture_simps)
  show ?thesis
    unfolding r using p [rule_format, OF b(1)] p [rule_format, OF b(2)]
    by (simp add: torusPixel_def fixture_simps)
qed


text \<open>
  From 22 by 22 upwards the margin of the patches holds: for every sequence of draws in
  \<open>[0, 1)\<close> both strategies return and no patch changes a pixel of the border.
\<close>

lemma margin_holds_from_22:
  assumes ua: "\<forall>w h. getContext2d ua w h" and src: "src < length hp"
    and big: "22 \<le> width (hp ! src)" "22 \<le> height (hp ! src)"
    and rnd1: "\<forall>k. 0 \<le> rnd1 k \<and> rnd1 k < 1" and rnd2: "\<forall>k. 0 \<le> rnd2 k \<and> rnd2 k < 1"
  shows "\<exists>b hpb c1 hp1 c2 hp2.
       generateScattered ua src hp = Inr (b, hpb)
     \<and> generatePatchBased ua rnd1 src hp = Inr (c1, hp1)
     \<and> generatePatchBased ua rnd2 src hp = Inr (c2, hp2)
     \<and> (\<forall>x y. onBorder (width (hp ! src)) (height (hp ! src)) x y \<longrightarrow>
           pix (hp1 ! c1) x y = over (pix (hpb ! b) x y) (pix (hp ! src) x y)
         \<and> (alpha (pix (hpb ! b) x y) = 1 \<longrightarrow> pix (hp1 ! c1) x y = pix (hpb ! b) x y)
         \<and> pix (hp2 ! c2) x y = pix (hp1 ! c1) x y)"
proof -
  let ?W = "width (hp ! src)" and ?H = "height (hp ! src)"
  from generateScattered_result [OF ua src] big
  obtain S M P where s: "generateScattered ua src hp = Inr (length hp, hp @ [S, M, P])"
    and sb: "\<And>x y. onBorder ?W ?H x y \<Longrightarrow> pix S x y = torusPixel (hp ! src) x y"
    by auto
  from generatePatchBased_result [OF ua src _ _ rnd1] big
  obtain hp1 where p1: "generatePatchBased ua rnd1 src hp = Inr (length hp, hp1)"
    and b1: "\<And>x y. onBorder ?W ?H x y \<Longrightarrow>
             pix (hp1 ! length hp) x y = over (torusPixel (hp ! src) x y) (pix (hp ! src) x y)"
    by auto
  from generatePatchBased_result [OF ua src _ _ rnd2] big
  obtain hp2 where p2: "generatePatchBased ua rnd2 src hp = Inr (length hp, hp2)"
    and b2: "\<And>x y. onBorder ?W ?H x y \<Longrightarrow>
             pix (hp2 ! length hp) x y = over (torusPixel (hp ! src) x y) (pix (hp ! src) x y)"
    by auto
  have "\<forall>x y. onBorder ?W ?H x y \<longrightarrow>
           pix (hp1 ! length hp) x y = over (pix ((hp @ [S, M, P]) ! length hp) x y) (pix (hp ! src) x y)
         \<and> (alpha (pix ((hp @ [S, M, P]) ! length hp) x y) = 1 \<longrightarrow>
              pix (hp1 ! length hp) x y = pix ((hp @ [S, M, P]) ! length hp) x y)
         \<and> pix (hp2 ! length hp) x y = pix (hp1 ! length hp) x y"
    using sb b1 b2 by (simp add: over_opaque)
  then show ?thesis using s p1 p2 by blast
qed

section \<open>Patches on a small surface\<close>

lemma splatPatch_patch:
  assumes ua: "\<forall>w h. getContext2d ua w h" and src: "src < length hp" and cv: "cv < length hp"
    and nz: "0 < width (hp ! src)" "0 < height (hp ! src)" and sz: "1 \<le> sz" "nat \<lfloor>sz\<rfloor> = p"
  shows "\<exists>hp'. splatPatch ua src (newContext cv) sz sx sy dx dy hp = Inr hp'
     \<and> (\<forall>i<p. \<forall>j<p. pix (hp' ! length hp) i j =
          scalePx (ov 0 sz (real i) (real i + 1) * ov 0 sz (real j) (real j + 1)
                   * gradientAlpha \<lparr>gcx = sz / 2, gcy = sz / 2, gr = sz / 2, gstop = 6 / 10\<rparr>
                       (real i + 1 / 2) (real j + 1 / 2))
            (rasterImage (newContext (length hp)) (hp ! src) sx sy sz sz 0 0 sz sz i j))"
proof -
  have p: "0 < p" using sz by (auto simp: le_floor_iff)
  have s0: "sz \<noteq> 0" using sz by simp
  show ?thesis
    using ua src cv nz p s0 sz(2)
    by (simp add: splatPatch_def Let_def createCanvas_def bindE_simps drawImage9_def drawImage3_def
        nth_append list_update_append fillRect_def scalePx_def
        paintImage_simps ctx_simps blank_simps scalePx_simps over_zero filtered_def rasterImage_update_simps)
qed


lemma splatPatch_corner:
  assumes ua: "\<forall>w h. getContext2d ua w h" and src: "src < length hp" and cv: "cv < length hp"
    and dims: "2 \<le> width (hp ! src)" "2 \<le> height (hp ! src)" "0 < width (hp ! cv)" "0 < height (hp ! cv)"
  shows "\<exists>hp'. splatPatch ua src (newContext cv) 4 0 0 (- 1) (- 1) hp = Inr hp'
     \<and> length hp' = Suc (length hp) \<and> (\<forall>k<length hp. k \<noteq> cv \<longrightarrow> hp' ! k = hp ! k)
     \<and> width (hp' ! cv) = width (hp ! cv) \<and> height (hp' ! cv) = height (hp ! cv)
     \<and> pix (hp' ! cv) 0 0 = over (pix (hp ! src) 1 1) (pix (hp ! cv) 0 0)"
proof -
  have nz: "0 < width (hp ! src)" "0 < height (hp ! src)" using dims by simp_all
  have f4: "nat \<lfloor>4 :: real\<rfloor> = 4" by simp
  from splatPatch_result [OF ua src cv nz _ f4, of 0 0 "- 1" "- 1"]
  obtain hp' where run: "splatPatch ua src (newContext cv) 4 0 0 (- 1) (- 1) hp = Inr hp'"
    and len: "length hp' = Suc (length hp)" and fr: "\<forall>k<length hp. k \<noteq> cv \<longrightarrow> hp' ! k = hp ! k"
    and d: "width (hp' ! cv) = width (hp ! cv)" "height (hp' ! cv) = height (hp ! cv)"
    and P: "width (hp' ! length hp) = 4" "height (hp' ! length hp) = 4"
    and px: "\<forall>X<width (hp ! cv). \<forall>Y<height (hp ! cv). pix (hp' ! cv) X Y =
          over (rasterImage (newContext cv) (hp' ! length hp) 0 0 (real 4) (real 4) (- 1) (- 1) (real 4) (real 4) X Y)
               (pix (hp ! cv) X Y)"
    by auto
  from splatPatch_patch [OF ua src cv nz _ f4, of 0 0 "- 1" "- 1"] run
  have pp: "\<forall>i<4. \<forall>j<4. pix (hp' ! length hp) i j =
          scalePx (ov 0 4 (real i) (real i + 1) * ov 0 4 (real j) (real j + 1)
                   * gradientAlpha \<lparr>gcx = 4 / 2, gcy = 4 / 2, gr = 4 / 2, gstop = 6 / 10\<rparr>
                       (real i + 1 / 2) (real j + 1 / 2))
            (rasterImage (newContext (length hp)) (hp ! src) 0 0 4 4 0 0 4 4 i j)"
    by auto
  have g: "gradientAlpha \<lparr>gcx = 4 / 2, gcy = 4 / 2, gr = 4 / 2, gstop = 6 / 10\<rparr> (real 1 + 1 / 2) (real 1 + 1 / 2) = 1"
    by (simp add: gradientAlpha_def Let_def power2_eq_square)
  have o: "ov 0 4 (real 1) (real 1 + 1) = 1" by (simp add: ov_def)
  have r1: "rasterImage (newContext (length hp)) (hp ! src) 0 0 4 4 0 0 4 4 1 1 = pix (hp ! src) 1 1"
    using rasterImage_unit [OF ctx_simps(2,3,4,5), of 4 4 "length hp" "hp ! src" 0 0 0 0 1 1] dims
    by simp
  have p11: "pix (hp' ! length hp) 1 1 = pix (hp ! src) 1 1"
    using pp [rule_format, of 1 1] by (simp only: g o r1) (simp add: scalePx_simps)?
  have r2: "rasterImage (newContext cv) (hp' ! length hp) 0 0 (real 4) (real 4) (- 1) (- 1) (real 4) (real 4) 0 0
      = pix (hp' ! length hp) 1 1"
    using rasterImage_whole [OF ctx_simps(2,3,4,5) P, of cv "- 1" "- 1" 0 0] by simp
  have "pix (hp' ! cv) 0 0 = over (pix (hp ! src) 1 1) (pix (hp ! cv) 0 0)"
    using px [rule_format, of 0 0] dims by (simp only: r2 p11) simp?
  then show ?thesis using run len fr d by blast
qed


lemma cornerDraws_simps:
  "cornerDraws (5 * i) = 2 / 3" "cornerDraws (5 * i + 1) = 0" "cornerDraws (5 * i + 2) = 0"
  "cornerDraws (5 * i + 3) = 11 / 14" "cornerDraws (5 * i + 4) = 11 / 14"
proof -
  have m: "(5 * i) mod 5 = 0" "(5 * i + 1) mod 5 = 1" "(5 * i + 2) mod 5 = 2"
    "(5 * i + 3) mod 5 = 3" "(5 * i + 4) mod 5 = 4"
    by presburger+
  show "cornerDraws (5 * i) = 2 / 3" "cornerDraws (5 * i + 1) = 0" "cornerDraws (5 * i + 2) = 0"
    "cornerDraws (5 * i + 3) = 11 / 14" "cornerDraws (5 * i + 4) = 11 / 14"
    unfolding cornerDraws_def m by simp_all
qed

lemma cornerDraws_range: "0 \<le> cornerDraws k \<and> cornerDraws k < 1"
proof -
  have "k mod 5 < 5" by simp
  then consider "k mod 5 = 0" | "k mod 5 = 1" | "k mod 5 = 2" | "k mod 5 = 3" | "k mod 5 = 4"
    by linarith
  then show ?thesis by cases (simp_all add: cornerDraws_def)
qed

lemma patchStep_corner:
  assumes ua: "\<forall>w h. getContext2d ua w h" and src: "src < length hp" and cv: "cv < length hp" "src \<noteq> cv"
    and dims: "width (hp ! src) = 10" "height (hp ! src) = 10" "width (hp ! cv) = 10" "height (hp ! cv) = 10"
    and opaque: "alpha (pix (hp ! src) 1 1) = 1"
  shows "\<exists>hp'. patchStep ua cornerDraws src (newContext cv) 10 10 i hp = Inr hp'
     \<and> length hp \<le> length hp' \<and> (\<forall>k<length hp. k \<noteq> cv \<longrightarrow> hp' ! k = hp ! k)
     \<and> width (hp' ! cv) = 10 \<and> height (hp' ! cv) = 10
     \<and> pix (hp' ! cv) 0 0 = pix (hp ! src) 1 1"
proof -
  have ps: "patchStep ua cornerDraws src (newContext cv) 10 10 i hp =
      bindE (if i = 0
             then bindE (generateScattered ua src hp) (\<lambda>(base, hp). drawImage3 ua (newContext cv) base 0 0 hp)
             else Inr hp) (\<lambda>hp. splatPatch ua src (newContext cv) 4 0 0 (- 1) (- 1) hp)"
    unfolding patchStep_def Let_def cornerDraws_simps by simp
  have "\<exists>hp1. (if i = 0
             then bindE (generateScattered ua src hp) (\<lambda>(base, hp). drawImage3 ua (newContext cv) base 0 0 hp)
             else Inr hp) = Inr hp1
     \<and> length hp \<le> length hp1 \<and> (\<forall>k<length hp. k \<noteq> cv \<longrightarrow> hp1 ! k = hp ! k)
     \<and> width (hp1 ! cv) = 10 \<and> height (hp1 ! cv) = 10"
  proof (cases "i = 0")
    case True
    from baseStep_result [OF ua src cv(1) dims]
    show ?thesis unfolding True by auto
  next
    case False
    then show ?thesis using dims by simp
  qed
  then obtain hp1 where A: "(if i = 0
             then bindE (generateScattered ua src hp) (\<lambda>(base, hp). drawImage3 ua (newContext cv) base 0 0 hp)
             else Inr hp) = Inr hp1"
    and len1: "length hp \<le> length hp1" and fr1: "\<And>k. k < length hp \<Longrightarrow> k \<noteq> cv \<Longrightarrow> hp1 ! k = hp ! k"
    and d1: "width (hp1 ! cv) = 10" "height (hp1 ! cv) = 10"
    by blast
  have src1: "src < length hp1" "cv < length hp1" using src cv len1 by simp_all
  have s1: "hp1 ! src = hp ! src" using fr1 [OF src cv(2)] .
  from splatPatch_corner [OF ua src1] dims d1
  obtain hp2 where B: "splatPatch ua src (newContext cv) 4 0 0 (- 1) (- 1) hp1 = Inr hp2"
    and len2: "length hp2 = Suc (length hp1)"
    and fr2: "\<And>k. k < length hp1 \<Longrightarrow> k \<noteq> cv \<Longrightarrow> hp2 ! k = hp1 ! k"
    and d2: "width (hp2 ! cv) = 10" "height (hp2 ! cv) = 10"
    and px: "pix (hp2 ! cv) 0 0 = over (pix (hp ! src) 1 1) (pix (hp1 ! cv) 0 0)"
    unfolding s1 by auto
  have "patchStep ua cornerDraws src (newContext cv) 10 10 i hp = Inr hp2"
    unfolding ps A by (simp add: bindE_simps B)
  moreover have "length hp \<le> length hp2" using len1 len2 by simp
  moreover have "\<forall>k<length hp. k \<noteq> cv \<longrightarrow> hp2 ! k = hp ! k"
    using fr1 fr2 len1 by auto
  moreover have "pix (hp2 ! cv) 0 0 = pix (hp ! src) 1 1"
    unfolding px by (rule over_opaque [OF opaque])
  ultimately show ?thesis using d2 by blast
qed

lemma generatePatchBased_corner:
  assumes ua: "\<forall>w h. getContext2d ua w h" and src: "src < length hp"
    and dims: "width (hp ! src) = 10" "height (hp ! src) = 10"
    and opaque: "alpha (pix (hp ! src) 1 1) = 1"
  shows "\<exists>hp'. generatePatchBased ua cornerDraws src hp = Inr (length hp, hp')
     \<and> pix (hp' ! length hp) 0 0 = pix (hp ! src) 1 1"
proof -
  let ?img = "hp ! src" and ?cv = "length hp"
  let ?C0 = "paintImage ua (newContext ?cv) ?img 0 0 10 10 0 0 10 10 (blank 10 10)"
  let ?body = "patchStep ua cornerDraws src (newContext ?cv) 10 10"
  define I where "I j h \<longleftrightarrow> length hp < length h \<and> (\<forall>k<length hp. h ! k = hp ! k)
     \<and> width (h ! ?cv) = 10 \<and> height (h ! ?cv) = 10
     \<and> (0 < j \<longrightarrow> pix (h ! ?cv) 0 0 = pix ?img 1 1)"
    for j :: nat and h :: heap
  have gp: "generatePatchBased ua cornerDraws src hp = bindE (forLoop 0 30 ?body (hp @ [?C0])) (\<lambda>h. Inr (?cv, h))"
    using ua src dims
    by (simp add: generatePatchBased_def Let_def createCanvas_def bindE_simps drawImage3_def drawImage9_def
        nth_append blank_simps ctx_simps del: forLoop.simps)
  have init: "I 0 (hp @ [?C0])"
    unfolding I_def by (simp add: nth_append paintImage_simps blank_simps)
  have step: "\<exists>h'. ?body j h = Inr h' \<and> I (Suc j) h'" if "I j h" for j h
  proof -
    have h: "length hp < length h" "\<And>k. k < length hp \<Longrightarrow> h ! k = hp ! k"
      "width (h ! ?cv) = 10" "height (h ! ?cv) = 10"
      using that unfolding I_def by auto
    have hs: "src < length h" "?cv < length h" "src \<noteq> ?cv" "h ! src = ?img"
      using h(1,2) src by simp_all
    have ds: "width (h ! src) = 10" "height (h ! src) = 10" "alpha (pix (h ! src) 1 1) = 1"
      using hs(4) dims opaque by simp_all
    from patchStep_corner [OF ua hs(1,2,3) ds(1,2) h(3,4) ds(3), of j] hs(4)
    obtain h' where r: "?body j h = Inr h'"
      and l: "length h \<le> length h'" and f: "\<And>k. k < length h \<Longrightarrow> k \<noteq> ?cv \<Longrightarrow> h' ! k = h ! k"
      and d: "width (h' ! ?cv) = 10" "height (h' ! ?cv) = 10"
      and b: "pix (h' ! ?cv) 0 0 = pix ?img 1 1"
      by auto
    have "I (Suc j) h'"
      unfolding I_def using l f d b h by auto
    then show ?thesis using r by blast
  qed
  from forLoop_invariant [of 0 30 I ?body "hp @ [?C0]"] step init
  obtain hp' where run: "forLoop 0 30 ?body (hp @ [?C0]) = Inr hp'"
    and fin: "I 30 hp'" by auto
  show ?thesis
    unfolding gp run using fin
    by (simp add: bindE_simps I_def)
qed

lemma patchStep_offcanvas:
  assumes ua: "\<forall>w h. getContext2d ua w h" and src: "src < length hp" and cv: "cv < length hp" "src \<noteq> cv"
    and dims: "width (hp ! src) = 10" "height (hp ! src) = 10" "width (hp ! cv) = 10" "height (hp ! cv) = 10"
  shows "\<exists>hp'. patchStep ua (\<lambda>k. 0) src (newContext cv) 10 10 i hp = Inr hp'
     \<and> length hp \<le> length hp' \<and> (\<forall>k<length hp. k \<noteq> cv \<longrightarrow> hp' ! k = hp ! k)
     \<and> width (hp' ! cv) = 10 \<and> height (hp' ! cv) = 10
     \<and> pix (hp' ! cv) 0 0 =
         (if i = 0 then over (torusPixel (hp ! src) 0 0) (pix (hp ! cv) 0 0) else pix (hp ! cv) 0 0)"
proof -
  have ps: "patchStep ua (\<lambda>k. 0) src (newContext cv) 10 10 i hp =
      bindE (if i = 0
             then bindE (generateScattered ua src hp) (\<lambda>(base, hp). drawImage3 ua (newContext cv) base 0 0 hp)
             else Inr hp) (\<lambda>hp. splatPatch ua src (newContext cv) 2 0 0 10 10 hp)"
    unfolding patchStep_def Let_def by simp
  have b00: "onBorder 10 10 0 0" by (simp add: onBorder_def)
  have "\<exists>hp1. (if i = 0
             then bindE (generateScattered ua src hp) (\<lambda>(base, hp). drawImage3 ua (newContext cv) base 0 0 hp)
             else Inr hp) = Inr hp1
     \<and> length hp \<le> length hp1 \<and> (\<forall>k<length hp. k \<noteq> cv \<longrightarrow> hp1 ! k = hp ! k)
     \<and> width (hp1 ! cv) = 10 \<and> height (hp1 ! cv) = 10
     \<and> pix (hp1 ! cv) 0 0 =
         (if i = 0 then over (torusPixel (hp ! src) 0 0) (pix (hp ! cv) 0 0) else pix (hp ! cv) 0 0)"
  proof (cases "i = 0")
    case True
    from baseStep_result [OF ua src cv(1) dims] b00
    show ?thesis unfolding True by auto
  next
    case False
    then show ?thesis using dims by simp
  qed
  then obtain hp1 where A: "(if i = 0
             then bindE (generateScattered ua src hp) (\<lambda>(base, hp). drawImage3 ua (newContext cv) base 0 0 hp)
             else Inr hp) = Inr hp1"
    and len1: "length hp \<le> length hp1" and fr1: "\<And>k. k < length hp \<Longrightarrow> k \<noteq> cv \<Longrightarrow> hp1 ! k = hp ! k"
    and d1: "width (hp1 ! cv) = 10" "height (hp1 ! cv) = 10"
    and p1: "pix (hp1 ! cv) 0 0 =
         (if i = 0 then over (torusPixel (hp ! src) 0 0) (pix (hp ! cv) 0 0) else pix (hp ! cv) 0 0)"
    by blast
  have src1: "src < length hp1" "cv < length hp1" using src cv len1 by simp_all
  have s1: "hp1 ! src = hp ! src" using fr1 [OF src cv(2)] .
  have f2: "nat \<lfloor>2 :: real\<rfloor> = 2" by simp
  from splatPatch_result [OF ua src1 _ _ _ f2, of 0 0 10 10] dims d1
  obtain hp2 where B: "splatPatch ua src (newContext cv) 2 0 0 10 10 hp1 = Inr hp2"
    and len2: "length hp2 = Suc (length hp1)"
    and fr2: "\<And>k. k < length hp1 \<Longrightarrow> k \<noteq> cv \<Longrightarrow> hp2 ! k = hp1 ! k"
    and d2: "width (hp2 ! cv) = 10" "height (hp2 ! cv) = 10"
    and P: "width (hp2 ! length hp1) = 2" "height (hp2 ! length hp1) = 2"
    and px: "pix (hp2 ! cv) 0 0 =
          over (rasterImage (newContext cv) (hp2 ! length hp1) 0 0 (real 2) (real 2) 10 10 (real 2) (real 2) 0 0)
               (pix (hp1 ! cv) 0 0)"
    unfolding s1 by auto
  have "rasterImage (newContext cv) (hp2 ! length hp1) 0 0 (real 2) (real 2) 10 10 (real 2) (real 2) 0 0 = 0"
    by (rule rasterImage_translated_outside [OF ctx_simps(2,3,4,5) P]) simp_all
  then have "pix (hp2 ! cv) 0 0 = pix (hp1 ! cv) 0 0" unfolding px by (simp add: over_zero)
  then have "pix (hp2 ! cv) 0 0 =
         (if i = 0 then over (torusPixel (hp ! src) 0 0) (pix (hp ! cv) 0 0) else pix (hp ! cv) 0 0)"
    using p1 by simp
  moreover have "patchStep ua (\<lambda>k. 0) src (newContext cv) 10 10 i hp = Inr hp2"
    unfolding ps A by (simp add: bindE_simps B)
  moreover have "length hp \<le> length hp2" using len1 len2 by simp
  moreover have "\<forall>k<length hp. k \<noteq> cv \<longrightarrow> hp2 ! k = hp ! k"
    using fr1 fr2 len1 by auto
  ultimately show ?thesis using d2 by blast
qed

lemma generatePatchBased_offcanvas:
  assumes ua: "\<forall>w h. getContext2d ua w h" and src: "src < length hp"
    and dims: "width (hp ! src) = 10" "height (hp ! src) = 10"
  shows "\<exists>hp'. generatePatchBased ua (\<lambda>k. 0) src hp = Inr (length hp, hp')
     \<and> pix (hp' ! length hp) 0 0 = over (torusPixel (hp ! src) 0 0) (pix (hp ! src) 0 0)"
proof -
  let ?img = "hp ! src" and ?cv = "length hp"
  let ?C0 = "paintImage ua (newContext ?cv) ?img 0 0 10 10 0 0 10 10 (blank 10 10)"
  let ?body = "patchStep ua (\<lambda>k. 0) src (newContext ?cv) 10 10"
  define I where "I j h \<longleftrightarrow> length hp < length h \<and> (\<forall>k<length hp. h ! k = hp ! k)
     \<and> width (h ! ?cv) = 10 \<and> height (h ! ?cv) = 10
     \<and> pix (h ! ?cv) 0 0 = (if j = 0 then pix ?img 0 0 else over (torusPixel ?img 0 0) (pix ?img 0 0))"
    for j :: nat and h :: heap
  have gp: "generatePatchBased ua (\<lambda>k. 0) src hp = bindE (forLoop 0 30 ?body (hp @ [?C0])) (\<lambda>h. Inr (?cv, h))"
    using ua src dims
    by (simp add: generatePatchBased_def Let_def createCanvas_def bindE_simps drawImage3_def drawImage9_def
        nth_append blank_simps ctx_simps del: forLoop.simps)
  have ri: "rasterImage (newContext ?cv) ?img 0 0 (real 10) (real 10) 0 0 (real 10) (real 10) = pixelField ?img"
    by (rule rasterImage_identity) (simp_all add: ctx_simps dims)
  have init: "I 0 (hp @ [?C0])"
    unfolding I_def using ri
    by (simp add: nth_append paintImage_simps blank_simps ctx_simps filtered_def
        scalePx_simps over_zero pixelField_def dims)
  have step: "\<exists>h'. ?body j h = Inr h' \<and> I (Suc j) h'" if "I j h" for j h
  proof -
    have h: "length hp < length h" "\<And>k. k < length hp \<Longrightarrow> h ! k = hp ! k"
      "width (h ! ?cv) = 10" "height (h ! ?cv) = 10"
      and hb: "pix (h ! ?cv) 0 0 = (if j = 0 then pix ?img 0 0 else over (torusPixel ?img 0 0) (pix ?img 0 0))"
      using that unfolding I_def by auto
    have hs: "src < length h" "?cv < length h" "src \<noteq> ?cv" "h ! src = ?img"
      using h(1,2) src by simp_all
    have ds: "width (h ! src) = 10" "height (h ! src) = 10"
      using hs(4) dims by simp_all
    from patchStep_offcanvas [OF ua hs(1,2,3) ds h(3,4), of j] hs(4)
    obtain h' where r: "?body j h = Inr h'"
      and l: "length h \<le> length h'" and f: "\<And>k. k < length h \<Longrightarrow> k \<noteq> ?cv \<Longrightarrow> h' ! k = h ! k"
      and d: "width (h' ! ?cv) = 10" "height (h' ! ?cv) = 10"
      and b: "pix (h' ! ?cv) 0 0 =
         (if j = 0 then over (torusPixel ?img 0 0) (pix (h ! ?cv) 0 0) else pix (h ! ?cv) 0 0)"
      by auto
    have "I (Suc j) h'"
      unfolding I_def using l f d b hb h by auto
    then show ?thesis using r by blast
  qed
  from forLoop_invariant [of 0 30 I ?body "hp @ [?C0]"] step init
  obtain hp' where run: "forLoop 0 30 ?body (hp @ [?C0]) = Inr hp'"
    and fin: "I 30 hp'" by auto
  show ?thesis
    unfolding gp run using fin
    by (simp add: bindE_simps I_def)
qed

text \<open>
  C3. On a surface smaller than 22 pixels the patches do not keep off the border. The
  paste position is \<open>10 + random * (w - size - 20)\<close> with no guard, and there
  \<open>w - size - 20\<close> is negative. On the opaque ramp 10 by 10, with the draws
  \<open>cornerDraws\<close>, every patch is pasted at \<open>(-1, -1)\<close> and the corner pixel
  \<open>(0, 0)\<close> of the PatchBased output is the input's pixel \<open>(1, 1)\<close>; with all draws 0
  the patches miss the canvas and the corner is the input's pixel \<open>(5, 5)\<close>, as in the
  Scattered output. The border differs from that of the Scattered base and between two
  invocations.
\<close>

theorem patch_pasted_on_the_corner:
  "(case generatePatchBased agent0 cornerDraws 0 [ramp 10 10] of
      Inl e \<Rightarrow> False
    | Inr (c, hp') \<Rightarrow> pix (hp' ! c) 0 0 = Pixel (1 / 10) (1 / 10) 0 1)
   \<and> (case generatePatchBased agent0 (\<lambda>k. 0) 0 [ramp 10 10] of
      Inl e \<Rightarrow> False
    | Inr (c, hp') \<Rightarrow> pix (hp' ! c) 0 0 = Pixel (1 / 2) (1 / 2) 0 1)
   \<and> (case generateScattered agent0 0 [ramp 10 10] of
      Inl e \<Rightarrow> False
    | Inr (b, hpb) \<Rightarrow> pix (hpb ! b) 0 0 = Pixel (1 / 2) (1 / 2) 0 1)"
proof -
  from generatePatchBased_corner [of agent0 0 "[ramp 10 10]"]
  obtain hp' where r: "generatePatchBased agent0 cornerDraws 0 [ramp 10 10] = Inr (0 + 1, hp')"
    and p: "pix (hp' ! (0 + 1)) 0 0 = Pixel (1 / 10) (1 / 10) 0 1"
    by (auto simp: agent0_simps fixture_simps)
  from generatePatchBased_offcanvas [of agent0 0 "[ramp 10 10]"]
  obtain hp2 where r2: "generatePatchBased agent0 (\<lambda>k. 0) 0 [ramp 10 10] = Inr (0 + 1, hp2)"
    and p2: "pix (hp2 ! (0 + 1)) 0 0 = over (torusPixel (ramp 10 10) 0 0) (pix (ramp 10 10) 0 0)"
    by (auto simp: agent0_simps fixture_simps)
  have t: "torusPixel (ramp 10 10) 0 0 = Pixel (1 / 2) (1 / 2) 0 1"
    by (simp add: torusPixel_def fixture_simps)
  have p2': "pix (hp2 ! (0 + 1)) 0 0 = Pixel (1 / 2) (1 / 2) 0 1"
    unfolding p2 t by (simp add: over_opaque)
  have b: "onBorder 10 10 0 0" by (simp add: onBorder_def)
  from generateScattered_result [of agent0 0 "[ramp 10 10]"]
  obtain S M P where s: "generateScattered agent0 0 [ramp 10 10] = Inr (Suc 0, [ramp 10 10, S, M, P])"
    and q: "\<forall>x y. onBorder 10 10 x y \<longrightarrow> pix S x y = torusPixel (ramp 10 10) x y"
    by (auto simp: agent0_simps fixture_simps)
  show ?thesis
    unfolding r r2 s using p p2' q [rule_format, OF b] t
    by simp
qed

section \<open>Sizes, the untouched input and the fields of the result\<close>

lemma bindE_InrE:
  assumes "bindE m f = Inr r"
  obtains a where "m = Inr a" "f a = Inr r"
  using assms by (auto simp: bindE_Inr_iff)

lemma createCanvas_length:
  "createCanvas ua w h hp = Inr ((c, ctx), hp') \<Longrightarrow> c = length hp \<and> length hp' = Suc (length hp)"
  by (auto simp: createCanvas_Inr_iff)

lemma drawImage9_length:
  "drawImage9 ua ctx img sx sy sw sh dx dy dw dh hp = Inr hp' \<Longrightarrow> length hp' = length hp"
  by (auto simp: drawImage9_Inr_iff)

lemma drawImage3_length:
  "drawImage3 ua ctx img dx dy hp = Inr hp' \<Longrightarrow> length hp' = length hp"
  unfolding drawImage3_def by (rule drawImage9_length)

lemma generateMirrored_length:
  assumes "generateMirrored ua src hp = Inr (c, hp')"
  shows "c = length hp \<and> length hp' = Suc (length hp)"
  using assms unfolding generateMirrored_def Let_def
  by (auto elim!: bindE_InrE dest!: createCanvas_length drawImage9_length)

lemma torusShift_length:
  assumes "torusShift ua ctx src hW hH hp = Inr hp'"
  shows "length hp' = length hp"
  using assms unfolding torusShift_def drawQuadrant_def
  by (auto elim!: bindE_InrE dest!: drawImage9_length split: prod.splits)

lemma generateScattered_length:
  assumes "generateScattered ua src hp = Inr (c, hp')"
  shows "c = length hp \<and> length hp' = length hp + 3"
  using assms unfolding generateScattered_def Let_def
  by (auto elim!: bindE_InrE dest!: createCanvas_length drawImage9_length drawImage3_length torusShift_length
      simp: fillRect_simps)

lemma splatPatch_length:
  assumes "splatPatch ua src ctx sz sx sy dx dy hp = Inr hp'"
  shows "length hp' = Suc (length hp)"
  using assms unfolding splatPatch_def Let_def
  by (auto elim!: bindE_InrE dest!: createCanvas_length drawImage9_length drawImage3_length
      simp: fillRect_simps)

lemma patchStep_length:
  assumes "patchStep ua rnd src ctx w h i hp = Inr hp'"
  shows "length hp \<le> length hp'"
  using assms unfolding patchStep_def Let_def
  by (auto elim!: bindE_InrE dest!: splatPatch_length generateScattered_length drawImage3_length
      split: if_splits)

lemma generatePatchBased_length:
  assumes "generatePatchBased ua rnd src hp = Inr (c, hp')"
  shows "c = length hp \<and> length hp < length hp'"
proof -
  from assms obtain ctx h0 h1 where c: "createCanvas ua (real (width (hp ! src))) (real (height (hp ! src))) hp = Inr ((c, ctx), h0)"
    and d: "drawImage3 ua ctx src 0 0 h0 = Inr h1"
    and l: "forLoop 0 30 (patchStep ua rnd src ctx (real (width (hp ! src))) (real (height (hp ! src)))) h1 = Inr hp'"
    unfolding generatePatchBased_def Let_def
    by (auto elim!: bindE_InrE simp del: forLoop.simps)
  have "length hp < length h1" using createCanvas_length [OF c] drawImage3_length [OF d] by simp
  then have "length hp < length hp'"
    by (rule forLoop_preserves [where I = "\<lambda>h. length hp < length h", OF _ _ l, rotated])
       (use patchStep_length in fastforce)
  then show ?thesis using createCanvas_length [OF c] by simp
qed

lemma generateSeamless_index:
  assumes "generateSeamless ua rnd method cur hp = Inr (s, hp')"
  shows "s < length hp'"
  using assms generateMirrored_length generatePatchBased_length generateScattered_length
  unfolding generateSeamless_def by (fastforce split: if_splits)


lemma update_keeps_dims:
  assumes "width s = width (hp ! t)" "height s = height (hp ! t)"
  shows "width (hp[t := s] ! t) = width (hp ! t) \<and> height (hp[t := s] ! t) = height (hp ! t)"
  by (cases "t < length hp") (simp_all add: assms list_update_beyond)

lemma drawImage9_frame:
  assumes "drawImage9 ua ctx img sx sy sw sh dx dy dw dh hp = Inr hp'"
  shows "length hp' = length hp" and "\<And>k. k \<noteq> target ctx \<Longrightarrow> hp' ! k = hp ! k"
    and "width (hp' ! target ctx) = width (hp ! target ctx)"
    and "height (hp' ! target ctx) = height (hp ! target ctx)"
proof -
  from assms have e: "hp' = (if sw = 0 \<or> sh = 0 then hp
            else hp[target ctx := paintImage ua ctx (hp ! img) sx sy sw sh dx dy dw dh (hp ! target ctx)])"
    by (simp add: drawImage9_Inr_iff)
  show "length hp' = length hp" and "\<And>k. k \<noteq> target ctx \<Longrightarrow> hp' ! k = hp ! k"
    unfolding e by simp_all
  have "width (hp' ! target ctx) = width (hp ! target ctx) \<and> height (hp' ! target ctx) = height (hp ! target ctx)"
    unfolding e using update_keeps_dims [of "paintImage ua ctx (hp ! img) sx sy sw sh dx dy dw dh (hp ! target ctx)" hp "target ctx"]
    by (simp add: paintImage_simps)
  then show "width (hp' ! target ctx) = width (hp ! target ctx)"
    and "height (hp' ! target ctx) = height (hp ! target ctx)" by simp_all
qed

lemma strokeRect_simps:
  "length (strokeRect ctx st x y w h hp) = length hp"
  "k \<noteq> target ctx \<Longrightarrow> strokeRect ctx st x y w h hp ! k = hp ! k"
  by (simp_all add: strokeRect_def)

lemma strokeRect_dims:
  "width (strokeRect ctx st x y w h hp ! target ctx) = width (hp ! target ctx)
   \<and> height (strokeRect ctx st x y w h hp ! target ctx) = height (hp ! target ctx)"
  unfolding strokeRect_def by (rule update_keeps_dims) simp_all

lemma tileCell_preserves:
  assumes "bindE (drawImage3 ua (newContext (length hp)) tex dx dy h) (\<lambda>h.
             Inr (if markSeams then strokeRect (newContext (length hp)) st x y w v h else h)) = Inr h'"
    and "tileInv hp A B h"
  shows "tileInv hp A B h'"
proof -
  from assms(1) obtain h1 where d: "drawImage3 ua (newContext (length hp)) tex dx dy h = Inr h1"
    and e: "h' = (if markSeams then strokeRect (newContext (length hp)) st x y w v h1 else h1)"
    by (auto elim!: bindE_InrE)
  have "tileInv hp A B h1"
    using assms(2) drawImage9_frame [OF d [unfolded drawImage3_def]]
    by (simp add: tileInv_def ctx_simps)
  then show ?thesis
    unfolding e using strokeRect_dims [of "newContext (length hp)" st x y w v h1]
    by (simp add: tileInv_def strokeRect_simps ctx_simps)
qed

lemma tileCell_total:
  assumes "tex < length hp" "0 < width (hp ! tex)" "0 < height (hp ! tex)" "tileInv hp A B h"
  shows "\<exists>h'. bindE (drawImage3 ua (newContext (length hp)) tex dx dy h) (\<lambda>h.
             Inr (if markSeams then strokeRect (newContext (length hp)) st x y w v h else h)) = Inr h'"
  using assms by (simp add: drawImage3_def drawImage9_def bindE_simps tileInv_def)


lemma floor_product_nat: "nat \<lfloor>real a * real b\<rfloor> = a * b"
proof -
  have "real a * real b = real (a * b)" by simp
  then show ?thesis by (simp only: floor_of_nat nat_int)
qed

lemma generateTilePreview_frame:
  assumes run: "generateTilePreview ua tex N m hp = Inr (p, hp')"
  shows "p = length hp \<and> tileInv hp (width (hp ! tex) * N) (height (hp ! tex) * N) hp'"
proof -
  let ?W = "width (hp ! tex)" and ?H = "height (hp ! tex)"
  let ?cell = "\<lambda>r c h. bindE (drawImage3 ua (newContext (length hp)) tex (real c * real ?W) (real r * real ?H) h) (\<lambda>h.
      Inr (if m then strokeRect (newContext (length hp)) (Pixel (1 / 2) 0 0 (1 / 2))
                       (real c * real ?W) (real r * real ?H) (real ?W) (real ?H) h else h))"
  from run have p: "p = length hp"
    and getctx: "getContext2d ua (?W * N) (?H * N)"
    and loop: "forLoop 0 N (\<lambda>r. forLoop 0 N (?cell r)) (hp @ [blank (?W * N) (?H * N)]) = Inr hp'"
    unfolding generateTilePreview_def Let_def
    by (auto elim!: bindE_InrE simp: createCanvas_Inr_iff floor_product_nat simp del: forLoop.simps)
  have init: "tileInv hp (?W * N) (?H * N) (hp @ [blank (?W * N) (?H * N)])"
    by (simp add: tileInv_def nth_append blank_simps)
  have inner: "tileInv hp (?W * N) (?H * N) h'"
    if "forLoop 0 N (?cell r) h = Inr h'" "tileInv hp (?W * N) (?H * N) h" for r h h'
    by (rule forLoop_preserves [where I = "tileInv hp (?W * N) (?H * N)", OF _ that(2) that(1)])
       (rule tileCell_preserves)
  have "tileInv hp (?W * N) (?H * N) hp'"
    by (rule forLoop_preserves [where I = "tileInv hp (?W * N) (?H * N)", OF _ init loop]) (rule inner)
  then show ?thesis using p by simp
qed

lemma generateTilePreview_total:
  assumes ua: "\<forall>w h. getContext2d ua w h" and tex: "tex < length hp"
    and pos: "0 < width (hp ! tex)" "0 < height (hp ! tex)"
  shows "\<exists>p hp'. generateTilePreview ua tex N m hp = Inr (p, hp')"
proof -
  let ?W = "width (hp ! tex)" and ?H = "height (hp ! tex)"
  let ?cell = "\<lambda>r c h. bindE (drawImage3 ua (newContext (length hp)) tex (real c * real ?W) (real r * real ?H) h) (\<lambda>h.
      Inr (if m then strokeRect (newContext (length hp)) (Pixel (1 / 2) 0 0 (1 / 2))
                       (real c * real ?W) (real r * real ?H) (real ?W) (real ?H) h else h))"
  let ?I = "\<lambda>j::nat. tileInv hp (?W * N) (?H * N)"
  have gp: "generateTilePreview ua tex N m hp =
      bindE (forLoop 0 N (\<lambda>r. forLoop 0 N (?cell r)) (hp @ [blank (?W * N) (?H * N)])) (\<lambda>h. Inr (length hp, h))"
    using ua by (simp add: generateTilePreview_def Let_def createCanvas_def bindE_simps floor_product_nat
        del: forLoop.simps)
  have init: "tileInv hp (?W * N) (?H * N) (hp @ [blank (?W * N) (?H * N)])"
    by (simp add: tileInv_def nth_append blank_simps)
  have cell: "\<exists>h'. ?cell r c h = Inr h' \<and> tileInv hp (?W * N) (?H * N) h'"
    if "tileInv hp (?W * N) (?H * N) h" for r c h
  proof -
    from tileCell_total [OF tex pos that]
    obtain h' where "?cell r c h = Inr h'" by blast
    then show ?thesis using tileCell_preserves [OF _ that] by blast
  qed
  have inner: "\<exists>h'. forLoop 0 N (?cell r) h = Inr h' \<and> tileInv hp (?W * N) (?H * N) h'"
    if "tileInv hp (?W * N) (?H * N) h" for r h
    by (rule forLoop_invariant [where I = ?I]) (use that cell in simp_all)
  have "\<exists>h'. forLoop 0 N (\<lambda>r. forLoop 0 N (?cell r)) (hp @ [blank (?W * N) (?H * N)]) = Inr h'
      \<and> tileInv hp (?W * N) (?H * N) h'"
    by (rule forLoop_invariant [where I = ?I]) (use init inner in simp_all)
  then show ?thesis unfolding gp by (auto simp: bindE_simps)
qed


lemma processTexture_result:
  assumes run: "processTexture ua rnd loaded method N m crop averaging fmt q hp = Inr (res, hp')"
  shows "\<exists>s p. seamlessUrl res = toDataURL ua (hp' ! s) fmt (if fmt = JPEG then Some (q / 100) else None)
     \<and> previewUrl res = toDataURL ua (hp' ! p) fmt (if fmt = JPEG then Some (q / 100) else None)
     \<and> result_width res = width (hp' ! s) \<and> result_height res = height (hp' ! s)
     \<and> width (hp' ! p) = result_width res * N \<and> height (hp' ! p) = result_height res * N"
proof -
  from run obtain img where "loaded = Some img"
    by (cases loaded) (simp_all add: processTexture_def)
  with run obtain h3 cur s h4 p where
    g: "generateSeamless ua rnd method cur h3 = Inr (s, h4)"
    and t: "generateTilePreview ua s N m h4 = Inr (p, hp')"
    and r: "res = \<lparr>seamlessUrl = toDataURL ua (hp' ! s) fmt (if fmt = JPEG then Some (q / 100) else None),
               previewUrl = toDataURL ua (hp' ! p) fmt (if fmt = JPEG then Some (q / 100) else None),
               result_width = width (hp' ! s), result_height = height (hp' ! s)\<rparr>"
    unfolding processTexture_def Let_def
    by (auto elim!: bindE_InrE)
  have s: "s < length h4" using generateSeamless_index [OF g] .
  from generateTilePreview_frame [OF t]
  have p: "p = length h4" and inv: "tileInv h4 (width (h4 ! s) * N) (height (h4 ! s) * N) hp'" by simp_all
  have f: "width (hp' ! p) = width (hp' ! s) * N" "height (hp' ! p) = height (hp' ! s) * N"
    using inv s p by (simp_all add: tileInv_def)
  show ?thesis
    unfolding r by (rule exI [of _ s], rule exI [of _ p]) (simp add: f)
qed

lemma processTexture_example_runs:
  "\<exists>res hp1. processTexture agent0 (\<lambda>k. 1 / 2) (Some (ramp 6 6)) MIRRORED 2 True
       \<lparr>top = 0, bottom = 0, left = 0, right = 0\<rparr> \<lparr>intensity = 0, radius = 5\<rparr> PNG 90 [] = Inr (res, hp1)"
proof -
  define S0 where "S0 = paintImage agent0 (newContext 0) (ramp 6 6) 0 0 6 6 0 0 6 6 (blank 6 6)"
  have d: "width S0 = 6" "height S0 = 6" by (simp_all add: S0_def paintImage_simps blank_simps)
  from generateMirrored_run [of agent0 6 6 0 "[S0]"] d
  obtain S where m: "generateMirrored agent0 0 [S0] = Inr (Suc 0, [S0, S])" and dS: "width S = 6" "height S = 6"
    by (auto simp: agent0_simps)
  from generateTilePreview_total [of agent0 "Suc 0" "[S0, S]" 2 True] dS
  obtain p hp' where t: "generateTilePreview agent0 (Suc 0) 2 True [S0, S] = Inr (p, hp')"
    by (auto simp: agent0_simps)
  show ?thesis
    by (simp add: processTexture_def createCanvas_def agent0_simps drawElement_def fixture_simps bindE_simps
        ctx_simps S0_def [symmetric] preCrop_def preAveraging_def generateSeamless_def m t)
qed

text \<open>
  C7 (as amended). Let the user agent provide a 2D context for every canvas and let every
  draw of \<open>Math.random\<close> lie in \<open>[0, 1)\<close>. On an input \<open>W\<close> by \<open>H\<close> the mirrored strategy
  returns for \<open>W, H \<ge> 1\<close>, the scattered strategy for \<open>W, H \<ge> 2\<close> and the patch-based
  strategy for \<open>W, H \<ge> 5\<close>; each returns a canvas of exactly \<open>W\<close> by \<open>H\<close> and leaves every
  canvas that was in the store, the input among them, as it was. The tile assembler returns
  for \<open>W, H \<ge> 1\<close> a canvas \<open>W * N\<close> by \<open>H * N\<close>, again without touching the store. Whenever
  the processor returns, its two URLs encode the seamless and the preview canvas in the
  chosen format (with the quality \<open>q / 100\<close> for JPEG), its \<open>width\<close> and \<open>height\<close> are those
  of the seamless canvas, and the preview is \<open>N\<close> times as wide and as high.
\<close>

theorem strategies_keep_size_and_input:
  assumes ua: "\<forall>w h. getContext2d ua w h" and src: "src < length hp"
    and rnd: "\<forall>k. 0 \<le> rnd k \<and> rnd k < 1"
  shows "(1 \<le> width (hp ! src) \<and> 1 \<le> height (hp ! src) \<longrightarrow>
           (\<exists>c hp'. generateMirrored ua src hp = Inr (c, hp')
              \<and> width (hp' ! c) = width (hp ! src) \<and> height (hp' ! c) = height (hp ! src)
              \<and> (\<forall>k<length hp. hp' ! k = hp ! k)))
       \<and> (2 \<le> width (hp ! src) \<and> 2 \<le> height (hp ! src) \<longrightarrow>
           (\<exists>c hp'. generateScattered ua src hp = Inr (c, hp')
              \<and> width (hp' ! c) = width (hp ! src) \<and> height (hp' ! c) = height (hp ! src)
              \<and> (\<forall>k<length hp. hp' ! k = hp ! k)))
       \<and> (5 \<le> width (hp ! src) \<and> 5 \<le> height (hp ! src) \<longrightarrow>
           (\<exists>c hp'. generatePatchBased ua rnd src hp = Inr (c, hp')
              \<and> width (hp' ! c) = width (hp ! src) \<and> height (hp' ! c) = height (hp ! src)
              \<and> (\<forall>k<length hp. hp' ! k = hp ! k)))
       \<and> (1 \<le> width (hp ! src) \<and> 1 \<le> height (hp ! src) \<longrightarrow>
           (\<exists>p hp'. generateTilePreview ua src N markSeams hp = Inr (p, hp')
              \<and> width (hp' ! p) = width (hp ! src) * N \<and> height (hp' ! p) = height (hp ! src) * N
              \<and> (\<forall>k<length hp. hp' ! k = hp ! k)))
       \<and> (processTexture ua rnd loaded method N markSeams crop averaging fmt q hp0 = Inr (res, hp1) \<longrightarrow>
           (\<exists>s p. seamlessUrl res = toDataURL ua (hp1 ! s) fmt (if fmt = JPEG then Some (q / 100) else None)
              \<and> previewUrl res = toDataURL ua (hp1 ! p) fmt (if fmt = JPEG then Some (q / 100) else None)
              \<and> result_width res = width (hp1 ! s) \<and> result_height res = height (hp1 ! s)
              \<and> width (hp1 ! p) = result_width res * N \<and> height (hp1 ! p) = result_height res * N))"
proof (intro conjI impI)
  let ?W = "width (hp ! src)" and ?H = "height (hp ! src)"
  {
    assume "1 \<le> ?W \<and> 1 \<le> ?H"
    with generateMirrored_run [of ua ?W ?H src hp] ua src
    obtain S where "generateMirrored ua src hp = Inr (length hp, hp @ [S])" "width S = ?W" "height S = ?H"
      by auto
    then show "\<exists>c hp'. generateMirrored ua src hp = Inr (c, hp')
              \<and> width (hp' ! c) = ?W \<and> height (hp' ! c) = ?H \<and> (\<forall>k<length hp. hp' ! k = hp ! k)"
      by (auto simp: nth_append)
  }
  {
    assume "2 \<le> ?W \<and> 2 \<le> ?H"
    with generateScattered_result [OF ua src]
    obtain S M P where "generateScattered ua src hp = Inr (length hp, hp @ [S, M, P])" "width S = ?W" "height S = ?H"
      by auto
    then show "\<exists>c hp'. generateScattered ua src hp = Inr (c, hp')
              \<and> width (hp' ! c) = ?W \<and> height (hp' ! c) = ?H \<and> (\<forall>k<length hp. hp' ! k = hp ! k)"
      by (auto simp: nth_append)
  }
  {
    assume "5 \<le> ?W \<and> 5 \<le> ?H"
    with generatePatchBased_result [OF ua src _ _ rnd]
    show "\<exists>c hp'. generatePatchBased ua rnd src hp = Inr (c, hp')
              \<and> width (hp' ! c) = ?W \<and> height (hp' ! c) = ?H \<and> (\<forall>k<length hp. hp' ! k = hp ! k)"
      by blast
  }
  {
    assume "1 \<le> ?W \<and> 1 \<le> ?H"
    with generateTilePreview_total [OF ua src, of N markSeams]
    obtain p hp' where r: "generateTilePreview ua src N markSeams hp = Inr (p, hp')" by auto
    from generateTilePreview_frame [OF r]
    show "\<exists>p hp'. generateTilePreview ua src N markSeams hp = Inr (p, hp')
              \<and> width (hp' ! p) = ?W * N \<and> height (hp' ! p) = ?H * N \<and> (\<forall>k<length hp. hp' ! k = hp ! k)"
      using r by (auto simp: tileInv_def)
  }
  {
    assume "processTexture ua rnd loaded method N markSeams crop averaging fmt q hp0 = Inr (res, hp1)"
    then show "\<exists>s p. seamlessUrl res = toDataURL ua (hp1 ! s) fmt (if fmt = JPEG then Some (q / 100) else None)
              \<and> previewUrl res = toDataURL ua (hp1 ! p) fmt (if fmt = JPEG then Some (q / 100) else None)
              \<and> result_width res = width (hp1 ! s) \<and> result_height res = height (hp1 ! s)
              \<and> width (hp1 ! p) = result_width res * N \<and> height (hp1 ! p) = result_height res * N"
      by (rule processTexture_result)
  }
qed

theorem strategies_keep_size_and_input_witness:
  "(\<exists>c hp'. generateMirrored agent0 0 [ramp 6 6] = Inr (c, hp')
      \<and> width (hp' ! c) = 6 \<and> height (hp' ! c) = 6 \<and> hp' ! 0 = ramp 6 6)
   \<and> (\<exists>c hp'. generateScattered agent0 0 [ramp 6 6] = Inr (c, hp')
      \<and> width (hp' ! c) = 6 \<and> height (hp' ! c) = 6 \<and> hp' ! 0 = ramp 6 6)
   \<and> (\<exists>c hp'. generatePatchBased agent0 (\<lambda>k. 1 / 2) 0 [ramp 6 6] = Inr (c, hp')
      \<and> width (hp' ! c) = 6 \<and> height (hp' ! c) = 6 \<and> hp' ! 0 = ramp 6 6)
   \<and> (\<exists>p hp'. generateTilePreview agent0 0 2 True [ramp 6 6] = Inr (p, hp')
      \<and> width (hp' ! p) = 12 \<and> height (hp' ! p) = 12 \<and> hp' ! 0 = ramp 6 6)
   \<and> (\<exists>res hp1 s p. processTexture agent0 (\<lambda>k. 1 / 2) (Some (ramp 6 6)) MIRRORED 2 True
         \<lparr>top = 0, bottom = 0, left = 0, right = 0\<rparr> \<lparr>intensity = 0, radius = 5\<rparr> PNG 90 [] = Inr (res, hp1)
      \<and> result_width res = width (hp1 ! s) \<and> result_height res = height (hp1 ! s)
      \<and> width (hp1 ! p) = result_width res * 2 \<and> height (hp1 ! p) = result_height res * 2)"
proof -
  obtain res hp1 where run: "processTexture agent0 (\<lambda>k. 1 / 2) (Some (ramp 6 6)) MIRRORED 2 True
       \<lparr>top = 0, bottom = 0, left = 0, right = 0\<rparr> \<lparr>intensity = 0, radius = 5\<rparr> PNG 90 [] = Inr (res, hp1)"
    using processTexture_example_runs by blast
  note t = strategies_keep_size_and_input [of agent0 0 "[ramp 6 6]" "\<lambda>k. 1 / 2" 2 True
      "Some (ramp 6 6)" MIRRORED "\<lparr>top = 0, bottom = 0, left = 0, right = 0\<rparr>"
      "\<lparr>intensity = 0, radius = 5\<rparr>" PNG 90 "[]" res hp1]
  have a: "\<forall>w h. getContext2d agent0 w h" "(0::nat) < length [ramp 6 6]"
    "\<forall>k::nat. (0::real) \<le> 1 / 2 \<and> (1::real) / 2 < 1"
    by (simp_all add: agent0_simps)
  have m: "\<exists>c hp'. generateMirrored agent0 0 [ramp 6 6] = Inr (c, hp')
      \<and> width (hp' ! c) = 6 \<and> height (hp' ! c) = 6 \<and> hp' ! 0 = ramp 6 6"
    using t [OF a] by (simp add: fixture_simps)
  have sc: "\<exists>c hp'. generateScattered agent0 0 [ramp 6 6] = Inr (c, hp')
      \<and> width (hp' ! c) = 6 \<and> height (hp' ! c) = 6 \<and> hp' ! 0 = ramp 6 6"
    using t [OF a] by (simp add: fixture_simps)
  have pb: "\<exists>c hp'. generatePatchBased agent0 (\<lambda>k. 1 / 2) 0 [ramp 6 6] = Inr (c, hp')
      \<and> width (hp' ! c) = 6 \<and> height (hp' ! c) = 6 \<and> hp' ! 0 = ramp 6 6"
    using t [OF a] by (simp add: fixture_simps)
  have tp: "\<exists>p hp'. generateTilePreview agent0 0 2 True [ramp 6 6] = Inr (p, hp')
      \<and> width (hp' ! p) = 12 \<and> height (hp' ! p) = 12 \<and> hp' ! 0 = ramp 6 6"
    using t [OF a] by (simp add: fixture_simps)
  have pt: "\<exists>s p. result_width res = width (hp1 ! s) \<and> result_height res = height (hp1 ! s)
      \<and> width (hp1 ! p) = result_width res * 2 \<and> height (hp1 ! p) = result_height res * 2"
    using t [OF a] run by blast
  show ?thesis using m sc pb tp pt run by blast
qed

text \<open>
  Without the bounds on the size the strategies need not return a canvas at all. On an
  input 1 by 1 the scattered strategy makes a patch canvas of \<open>\<lfloor>0.7\<rfloor> = 0\<close> by \<open>0\<close>
  pixels, and drawing that canvas raises \<open>InvalidStateError\<close>.
\<close>

theorem scattered_fails_on_one_pixel_counterexample:
  "generateScattered agent0 0 [ramp 1 1] = Inl InvalidState"
proof -
  have h: "jsRound (1 / 2) = 1" using jsRound_half_nat [of 1] by simp
  have f: "nat \<lfloor>7 / 10 :: real\<rfloor> = 0" by simp
  show ?thesis
    by (simp add: generateScattered_def torusShift_def drawQuadrant_def quadrant_def Let_def createCanvas_def
        bindE_simps drawImage9_def drawImage3_def fillRect_def nth_append list_update_append
        agent0_simps fixture_simps h f paintImage_simps ctx_simps blank_simps)
qed

section \<open>The order of blits and seam markers in the preview\<close>

lemma tileLoop_invariant:
  assumes step: "\<And>r c h. r < N \<Longrightarrow> c < N \<Longrightarrow> J (r * N + c) h
      \<Longrightarrow> \<exists>h'. body r c h = Inr h' \<and> J (Suc (r * N + c)) h'"
    and init: "J 0 hp"
  shows "\<exists>hp'. forLoop 0 N (\<lambda>r. forLoop 0 N (body r)) hp = Inr hp' \<and> J (N * N) hp'"
proof -
  have inner: "\<exists>h'. forLoop 0 N (body r) h = Inr h' \<and> J (Suc r * N) h'" if "r < N" "J (r * N) h" for r h
  proof -
    have "\<exists>h'. forLoop 0 N (body r) h = Inr h' \<and> J (r * N + N) h'"
      by (rule forLoop_invariant [where I = "\<lambda>c. J (r * N + c)"]) (use that step in simp_all)
    then show ?thesis by (simp add: add.commute)
  qed
  have "\<exists>hp'. forLoop 0 N (\<lambda>r. forLoop 0 N (body r)) hp = Inr hp' \<and> J (N * N) hp'"
    by (rule forLoop_invariant [where I = "\<lambda>r. J (r * N)"]) (use inner init in simp_all)
  then show ?thesis .
qed

lemma blit_pixels:
  assumes inv: "tilePix hp A B f h" and tex: "tex < length hp"
    and pos: "0 < width (hp ! tex)" "0 < height (hp ! tex)"
  shows "\<exists>h'. drawImage3 ua (newContext (length hp)) tex
             (real c * real (width (hp ! tex))) (real r * real (height (hp ! tex))) h = Inr h'
          \<and> tilePix hp A B (\<lambda>X Y. cellBlit (hp ! tex) r c X Y (f X Y)) h'"
proof -
  let ?W = "width (hp ! tex)" and ?H = "height (hp ! tex)" and ?cv = "length hp"
  from inv have len: "length h = Suc ?cv" and same: "h ! tex = hp ! tex"
    and dims: "width (h ! ?cv) = A" "height (h ! ?cv) = B"
    and px: "\<And>X Y. pix (h ! ?cv) X Y = (if X < A \<and> Y < B then f X Y else 0)"
    and fr: "\<forall>k<length hp. h ! k = hp ! k"
    using tex by (simp_all add: tilePix_def tileInv_def)
  have ri: "rasterImage (newContext ?cv) (hp ! tex) 0 0 (real ?W) (real ?H)
       (real c * real ?W) (real r * real ?H) (real ?W) (real ?H) X Y =
     (if c * ?W \<le> X \<and> X < c * ?W + ?W \<and> r * ?H \<le> Y \<and> Y < r * ?H + ?H
      then pix (hp ! tex) (X - c * ?W) (Y - r * ?H) else 0)" for X Y
  proof -
    have e: "real c * real ?W = of_int (int (c * ?W))" "real r * real ?H = of_int (int (r * ?H))"
      by simp_all
    have n: "nat (int X - int (c * ?W)) = X - c * ?W" "nat (int Y - int (r * ?H)) = Y - r * ?H"
      by linarith+
    have cx: "(int (c * ?W) \<le> int X \<and> int X < int (c * ?W) + int ?W) = (c * ?W \<le> X \<and> X < c * ?W + ?W)"
      by (simp only: of_nat_le_iff of_nat_less_iff flip: of_nat_add)
    have cy: "(int (r * ?H) \<le> int Y \<and> int Y < int (r * ?H) + int ?H) = (r * ?H \<le> Y \<and> Y < r * ?H + ?H)"
      by (simp only: of_nat_le_iff of_nat_less_iff flip: of_nat_add)
    have nz: "?W \<noteq> 0" "?H \<noteq> 0" using pos by simp_all
    have "rasterImage (newContext ?cv) (hp ! tex) 0 0 (real ?W) (real ?H)
        (of_int (int (c * ?W))) (of_int (int (r * ?H))) (real ?W) (real ?H) X Y =
      (if (int (c * ?W) \<le> int X \<and> int X < int (c * ?W) + int ?W)
          \<and> (int (r * ?H) \<le> int Y \<and> int Y < int (r * ?H) + int ?H)
       then pix (hp ! tex) (nat (int X - int (c * ?W))) (nat (int Y - int (r * ?H))) else 0)"
      using rasterImage_whole [OF ctx_simps(2,3,4,5) refl refl nz, of ?cv "int (c * ?W)" "int (r * ?H)" X Y]
      by (simp only: conj_assoc)
    then show ?thesis
      unfolding e cx cy n by (simp only: conj_assoc)
  qed
  let ?S = "paintImage ua (newContext ?cv) (hp ! tex) 0 0 (real ?W) (real ?H)
       (real c * real ?W) (real r * real ?H) (real ?W) (real ?H) (h ! ?cv)"
  have run: "drawImage3 ua (newContext ?cv) tex (real c * real ?W) (real r * real ?H) h = Inr (h[?cv := ?S])"
    using pos by (simp add: drawImage3_def drawImage9_def same ctx_simps)
  have "tilePix hp A B (\<lambda>X Y. cellBlit (hp ! tex) r c X Y (f X Y)) (h[?cv := ?S])"
    unfolding tilePix_def tileInv_def
    using len fr dims
    by (simp add: paintImage_simps ctx_simps filtered_def ri px cellBlit_def scalePx_simps over_zero)
  with run show ?thesis by blast
qed

lemma marker_pixels:
  assumes inv: "tilePix hp A B f h" and tex: "tex < length hp"
  shows "tilePix hp A B (\<lambda>X Y. cellMarker m (hp ! tex) r c X Y (f X Y))
           (if m then strokeRect (newContext (length hp)) (Pixel (1 / 2) 0 0 (1 / 2))
                       (real c * real (width (hp ! tex))) (real r * real (height (hp ! tex)))
                       (real (width (hp ! tex))) (real (height (hp ! tex))) h else h)"
proof (cases m)
  case False
  then show ?thesis using inv by (simp add: cellMarker_def)
next
  case True
  let ?cv = "length hp"
  from inv have len: "length h = Suc ?cv"
    and dims: "width (h ! ?cv) = A" "height (h ! ?cv) = B"
    and px: "\<And>X Y. pix (h ! ?cv) X Y = (if X < A \<and> Y < B then f X Y else 0)"
    and fr: "\<forall>k<length hp. h ! k = hp ! k"
    by (simp_all add: tilePix_def tileInv_def)
  show ?thesis
    unfolding tilePix_def tileInv_def
    using len fr dims True
    by (simp add: strokeRect_def ctx_simps px cellMarker_def)
qed


lemma cell_index:
  fixes c N r :: nat
  shows "c < N \<Longrightarrow> (r * N + c) div N = r" "c < N \<Longrightarrow> (r * N + c) mod N = c"
  by (cases "N = 0"; simp)+

lemma pixel_step:
  "c < N \<Longrightarrow> interleavedPixel tex N m (Suc (r * N + c)) =
     (\<lambda>X Y. cellMarker m tex r c X Y (cellBlit tex r c X Y (interleavedPixel tex N m (r * N + c) X Y)))"
  "c < N \<Longrightarrow> blitsPixel tex N (Suc (r * N + c)) =
     (\<lambda>X Y. cellBlit tex r c X Y (blitsPixel tex N (r * N + c) X Y))"
  "c < N \<Longrightarrow> markersLastPixel tex N m (Suc (r * N + c)) =
     (\<lambda>X Y. cellMarker m tex r c X Y (markersLastPixel tex N m (r * N + c) X Y))"
  by (intro ext, simp add: cell_index)+

lemma pixel_start:
  "interleavedPixel tex N m 0 = (\<lambda>X Y. 0)" "blitsPixel tex N 0 = (\<lambda>X Y. 0)"
  "markersLastPixel tex N m 0 = blitsPixel tex N (N * N)"
  by (intro ext, simp)+

lemma tilePix_init: "tilePix hp A B (\<lambda>X Y. 0) (hp @ [blank A B])"
  by (simp add: tilePix_def tileInv_def nth_append blank_simps)

lemma generateTilePreview_pixels:
  assumes ua: "\<forall>w h. getContext2d ua w h" and tex: "tex < length hp"
    and pos: "0 < width (hp ! tex)" "0 < height (hp ! tex)"
  shows "\<exists>h1. generateTilePreview ua tex N m hp = Inr (length hp, h1)
     \<and> tilePix hp (width (hp ! tex) * N) (height (hp ! tex) * N) (interleavedPixel (hp ! tex) N m (N * N)) h1"
proof -
  let ?W = "width (hp ! tex)" and ?H = "height (hp ! tex)"
  let ?cell = "\<lambda>r c h. bindE (drawImage3 ua (newContext (length hp)) tex (real c * real ?W) (real r * real ?H) h) (\<lambda>h.
      Inr (if m then strokeRect (newContext (length hp)) (Pixel (1 / 2) 0 0 (1 / 2))
                       (real c * real ?W) (real r * real ?H) (real ?W) (real ?H) h else h))"
  let ?J = "\<lambda>k. tilePix hp (?W * N) (?H * N) (interleavedPixel (hp ! tex) N m k)"
  have gp: "generateTilePreview ua tex N m hp =
      bindE (forLoop 0 N (\<lambda>r. forLoop 0 N (?cell r)) (hp @ [blank (?W * N) (?H * N)])) (\<lambda>h. Inr (length hp, h))"
    using ua by (simp add: generateTilePreview_def Let_def createCanvas_def bindE_simps floor_product_nat
        del: forLoop.simps)
  have init: "?J 0 (hp @ [blank (?W * N) (?H * N)])"
    using tilePix_init [of hp "?W * N" "?H * N"] by (simp only: pixel_start)
  have cell: "\<exists>h'. ?cell r c h = Inr h' \<and> ?J (Suc (r * N + c)) h'"
    if "r < N" "c < N" "?J (r * N + c) h" for r c h
  proof -
    from blit_pixels [OF that(3) tex pos, of ua c r]
    obtain h1 where d: "drawImage3 ua (newContext (length hp)) tex (real c * real ?W) (real r * real ?H) h = Inr h1"
      and t: "tilePix hp (?W * N) (?H * N)
          (\<lambda>X Y. cellBlit (hp ! tex) r c X Y (interleavedPixel (hp ! tex) N m (r * N + c) X Y)) h1"
      by blast
    from marker_pixels [OF t tex, of m r c]
    show ?thesis by (simp add: d bindE_simps pixel_step that(2))
  qed
  have "\<exists>h'. forLoop 0 N (\<lambda>r. forLoop 0 N (?cell r)) (hp @ [blank (?W * N) (?H * N)]) = Inr h' \<and> ?J (N * N) h'"
    by (rule tileLoop_invariant [where J = ?J, OF cell init])
  then obtain h1 where h1: "forLoop 0 N (\<lambda>r. forLoop 0 N (?cell r)) (hp @ [blank (?W * N) (?H * N)]) = Inr h1"
    and j1: "?J (N * N) h1" by blast
  show ?thesis unfolding gp h1 bindE_simps using j1 by simp
qed

lemma assembleMarkersLast_pixels:
  assumes ua: "\<forall>w h. getContext2d ua w h" and tex: "tex < length hp"
    and pos: "0 < width (hp ! tex)" "0 < height (hp ! tex)"
  shows "\<exists>h2. assembleMarkersLast ua tex N m hp = Inr (length hp, h2)
     \<and> tilePix hp (width (hp ! tex) * N) (height (hp ! tex) * N) (markersLastPixel (hp ! tex) N m (N * N)) h2"
proof -
  let ?W = "width (hp ! tex)" and ?H = "height (hp ! tex)"
  let ?blit = "\<lambda>r c h. drawImage3 ua (newContext (length hp)) tex (real c * real ?W) (real r * real ?H) h"
  let ?mark = "\<lambda>r c h. Inr (if m then strokeRect (newContext (length hp)) (Pixel (1 / 2) 0 0 (1 / 2))
                       (real c * real ?W) (real r * real ?H) (real ?W) (real ?H) h else h) :: error + heap"
  let ?B = "\<lambda>k. tilePix hp (?W * N) (?H * N) (blitsPixel (hp ! tex) N k)"
  let ?M = "\<lambda>k. tilePix hp (?W * N) (?H * N) (markersLastPixel (hp ! tex) N m k)"
  have gp: "assembleMarkersLast ua tex N m hp =
      bindE (forLoop 0 N (\<lambda>r. forLoop 0 N (?blit r)) (hp @ [blank (?W * N) (?H * N)])) (\<lambda>h.
      bindE (forLoop 0 N (\<lambda>r. forLoop 0 N (?mark r)) h) (\<lambda>h. Inr (length hp, h)))"
    using ua by (simp add: assembleMarkersLast_def Let_def createCanvas_def bindE_simps floor_product_nat
        del: forLoop.simps)
  have init: "?B 0 (hp @ [blank (?W * N) (?H * N)])"
    using tilePix_init [of hp "?W * N" "?H * N"] by (simp only: pixel_start)
  have blit: "\<exists>h'. ?blit r c h = Inr h' \<and> ?B (Suc (r * N + c)) h'"
    if "r < N" "c < N" "?B (r * N + c) h" for r c h
    using blit_pixels [OF that(3) tex pos, of ua c r] by (simp add: pixel_step that(2))
  have "\<exists>h'. forLoop 0 N (\<lambda>r. forLoop 0 N (?blit r)) (hp @ [blank (?W * N) (?H * N)]) = Inr h' \<and> ?B (N * N) h'"
    by (rule tileLoop_invariant [where J = ?B, OF blit init])
  then obtain hb where hb: "forLoop 0 N (\<lambda>r. forLoop 0 N (?blit r)) (hp @ [blank (?W * N) (?H * N)]) = Inr hb"
    and b: "?B (N * N) hb" by blast
  have init2: "?M 0 hb" using b by (simp only: pixel_start)
  have mark: "\<exists>h'. ?mark r c h = Inr h' \<and> ?M (Suc (r * N + c)) h'"
    if "r < N" "c < N" "?M (r * N + c) h" for r c h
    using marker_pixels [OF that(3) tex, of m r c] by (simp add: pixel_step that(2))
  have "\<exists>h'. forLoop 0 N (\<lambda>r. forLoop 0 N (?mark r)) hb = Inr h' \<and> ?M (N * N) h'"
    by (rule tileLoop_invariant [where J = ?M, OF mark init2])
  then obtain h2 where h2: "forLoop 0 N (\<lambda>r. forLoop 0 N (?mark r)) hb = Inr h2"
    and m2: "?M (N * N) h2" by blast
  show ?thesis unfolding gp hb bindE_simps h2 using m2 by simp
qed


lemma in_cell:
  fixes W c X :: nat
  assumes "0 < W"
  shows "(c * W \<le> X \<and> X < c * W + W) \<longleftrightarrow> X div W = c"
proof
  assume "c * W \<le> X \<and> X < c * W + W"
  then show "X div W = c"
    by (intro div_nat_eqI) (simp_all add: mult.commute)
next
  assume c: "X div W = c"
  have "X div W * W \<le> X" by simp
  moreover have "X < X div W * W + W"
    using assms mod_less_divisor [of W X] div_mult_mod_eq [of X W] by linarith
  ultimately show "c * W \<le> X \<and> X < c * W + W" unfolding c by simp
qed

lemma cellBlit_other:
  assumes "0 < width tex" "0 < height tex" and "r \<noteq> Y div height tex \<or> c \<noteq> X div width tex"
  shows "cellBlit tex r c X Y P = P"
  using assms in_cell [of "width tex" c X] in_cell [of "height tex" r Y]
  by (auto simp: cellBlit_def over_zero)

lemma cellBlit_own:
  assumes "0 < width tex" "0 < height tex"
  shows "cellBlit tex (Y div height tex) (X div width tex) X Y P
           = over (pix tex (X mod width tex) (Y mod height tex)) P"
  using assms in_cell [of "width tex" "X div width tex" X] in_cell [of "height tex" "Y div height tex" Y]
  by (simp add: cellBlit_def minus_div_mult_eq_mod)

lemma stroke_misses:
  fixes W H r c X Y :: nat
  assumes "Suc c * W + 1 \<le> X \<or> Suc r * H + 1 \<le> Y"
  shows "strokeCoverage (real c * real W) (real r * real H) (real W) (real H) X Y = 0"
proof -
  from assms consider (x) "Suc c * W + 1 \<le> X" | (y) "Suc r * H + 1 \<le> Y" by blast
  then show ?thesis
  proof cases
    case x
    then have "real (Suc c * W + 1) \<le> real X" by (simp only: of_nat_le_iff)
    then have le: "real c * real W + real W + 1 \<le> real X" by (simp add: algebra_simps)
    have "ov (real c * real W - 1 / 2) (real c * real W + real W + 1 / 2) (real X) (real X + 1) = 0"
      by (rule ov_zero_right) (use le in linarith)
    moreover have "ov (real c * real W + 1 / 2) (real c * real W + real W - 1 / 2) (real X) (real X + 1) = 0"
      by (rule ov_zero_right) (use le in linarith)
    ultimately show ?thesis by (simp add: strokeCoverage_def)
  next
    case y
    then have "real (Suc r * H + 1) \<le> real Y" by (simp only: of_nat_le_iff)
    then have le: "real r * real H + real H + 1 \<le> real Y" by (simp add: algebra_simps)
    have "ov (real r * real H - 1 / 2) (real r * real H + real H + 1 / 2) (real Y) (real Y + 1) = 0"
      by (rule ov_zero_right) (use le in linarith)
    moreover have "ov (real r * real H + 1 / 2) (real r * real H + real H - 1 / 2) (real Y) (real Y + 1) = 0"
      by (rule ov_zero_right) (use le in linarith)
    ultimately show ?thesis by (simp add: strokeCoverage_def)
  qed
qed

lemma past_the_line:
  fixes W c X :: nat
  assumes "0 < W" "c < X div W" "X mod W \<noteq> 0"
  shows "Suc c * W + 1 \<le> X"
proof -
  have "Suc c * W \<le> X div W * W" using assms(2) by (intro mult_le_mono1) simp
  moreover have "X = X div W * W + X mod W" by simp
  ultimately show ?thesis using assms(3) by linarith
qed

lemma cellMarker_earlier:
  assumes pos: "0 < width tex" "0 < height tex"
    and good: "\<not> m \<or> ((X < width tex \<or> X mod width tex \<noteq> 0) \<and> (Y < height tex \<or> Y mod height tex \<noteq> 0))"
    and before: "r < Y div height tex \<or> (r = Y div height tex \<and> c < X div width tex)"
  shows "cellMarker m tex r c X Y P = P"
proof (cases m)
  case False
  then show ?thesis by (simp add: cellMarker_def)
next
  case True
  with good have g: "X < width tex \<or> X mod width tex \<noteq> 0" "Y < height tex \<or> Y mod height tex \<noteq> 0"
    by simp_all
  have "Suc c * width tex + 1 \<le> X \<or> Suc r * height tex + 1 \<le> Y"
  proof (cases "r < Y div height tex")
    case True
    then have "0 < Y div height tex" by simp
    then have "\<not> Y < height tex" by (simp add: div_greater_zero_iff)
    with g(2) have "Y mod height tex \<noteq> 0" by simp
    from past_the_line [OF pos(2) True this] show ?thesis by simp
  next
    case False
    with before have c: "c < X div width tex" by simp
    then have "0 < X div width tex" by simp
    then have "\<not> X < width tex" by (simp add: div_greater_zero_iff)
    with g(1) have "X mod width tex \<noteq> 0" by simp
    from past_the_line [OF pos(1) c this] show ?thesis by simp
  qed
  from stroke_misses [OF this] show ?thesis
    by (simp add: cellMarker_def scalePx_simps over_zero)
qed

lemma flat_index:
  fixes k N R C :: nat
  assumes "C < N"
  shows "k \<noteq> R * N + C \<Longrightarrow> k div N \<noteq> R \<or> k mod N \<noteq> C"
    and "k < R * N + C \<Longrightarrow> k div N < R \<or> (k div N = R \<and> k mod N < C)"
proof -
  have k: "k = k div N * N + k mod N" by simp
  show "k \<noteq> R * N + C \<Longrightarrow> k div N \<noteq> R \<or> k mod N \<noteq> C" using k by metis
  assume lt: "k < R * N + C"
  have "k div N \<le> (R * N + C) div N" using lt by (intro div_le_mono) simp
  then have le: "k div N \<le> R" using assms by (simp add: cell_index)
  show "k div N < R \<or> (k div N = R \<and> k mod N < C)"
  proof (cases "k div N = R")
    case True
    with k lt show ?thesis by (metis nat_add_left_cancel_less)
  next
    case False
    with le show ?thesis by simp
  qed
qed


lemma pixel_orders_agree:
  assumes pos: "0 < width tex" "0 < height tex"
    and inb: "X < width tex * N" "Y < height tex * N"
    and good: "\<not> m \<or> ((X < width tex \<or> X mod width tex \<noteq> 0) \<and> (Y < height tex \<or> Y mod height tex \<noteq> 0))"
  shows "interleavedPixel tex N m (N * N) X Y = markersLastPixel tex N m (N * N) X Y"
proof -
  define R where "R = Y div height tex"
  define C where "C = X div width tex"
  define K where "K = R * N + C"
  define T where "T = pix tex (X mod width tex) (Y mod height tex)"
  have C: "C < N" unfolding C_def using inb(1) by (simp add: less_mult_imp_div_less mult.commute)
  have R: "R < N" unfolding R_def using inb(2) by (simp add: less_mult_imp_div_less mult.commute)
  have "R * N + C < R * N + N" using C by simp
  also have "\<dots> = Suc R * N" by simp
  also have "\<dots> \<le> N * N" using R by (intro mult_le_mono1) simp
  finally have K: "K < N * N" by (simp add: K_def)
  have other: "cellBlit tex (k div N) (k mod N) X Y P = P" if "k \<noteq> K" for k P
    using flat_index(1) [OF C, of k R] that
    by (intro cellBlit_other [OF pos]) (simp add: K_def R_def C_def)
  have own: "cellBlit tex (K div N) (K mod N) X Y P = over T P" for P
    using cellBlit_own [OF pos, of Y X P] C
    by (simp add: K_def cell_index R_def [symmetric] C_def [symmetric] T_def)
  have early: "cellMarker m tex (k div N) (k mod N) X Y P = P" if "k < K" for k P
    using flat_index(2) [OF C, of k R] that
    by (intro cellMarker_earlier [OF pos good]) (simp add: K_def R_def C_def)
  have blits: "blitsPixel tex N k X Y = (if K < k then T else 0)" for k
  proof (induction k)
    case 0
    then show ?case by simp
  next
    case (Suc k)
    show ?case
    proof (cases "k = K")
      case True
      then show ?thesis using Suc by (simp add: own over_zero)
    next
      case False
      then show ?thesis using Suc by (auto simp: other)
    qed
  qed
  have before_i: "interleavedPixel tex N m k X Y = 0" if "k \<le> K" for k
    using that
  proof (induction k)
    case 0
    then show ?case by simp
  next
    case (Suc k)
    then show ?case by (simp add: other early)
  qed
  have before_m: "markersLastPixel tex N m k X Y = T" if "k \<le> K" for k
    using that
  proof (induction k)
    case 0
    then show ?case using K by (simp add: blits)
  next
    case (Suc k)
    then show ?case by (simp add: early)
  qed
  have after: "interleavedPixel tex N m (Suc K + d) X Y = markersLastPixel tex N m (Suc K + d) X Y" for d
  proof (induction d)
    case 0
    then show ?case by (simp add: own over_zero before_i before_m)
  next
    case (Suc d)
    then show ?case by (simp add: other)
  qed
  have "Suc K + (N * N - Suc K) = N * N" using K by simp
  then show ?thesis using after [of "N * N - Suc K"] by (simp only:)
qed


lemma tilePix_unique:
  assumes a: "tilePix hp A B f h1" and b: "tilePix hp A B g h2"
    and fg: "\<And>X Y. X < A \<Longrightarrow> Y < B \<Longrightarrow> f X Y = g X Y"
  shows "h1 = h2"
proof (rule nth_equalityI)
  show "length h1 = length h2" using a b by (simp add: tilePix_def tileInv_def)
next
  fix i assume "i < length h1"
  then have i: "i < length hp \<or> i = length hp" using a by (auto simp: tilePix_def tileInv_def)
  have p: "pix (h1 ! length hp) = pix (h2 ! length hp)"
    using a b fg by (intro ext) (simp add: tilePix_def)
  have "h1 ! length hp = h2 ! length hp"
    using a b p by (intro surface.equality) (simp_all add: tilePix_def tileInv_def)
  then show "h1 ! i = h2 ! i" using i a b by (auto simp: tilePix_def tileInv_def)
qed

lemma pixel_numeral:
  "interleavedPixel tex N m (numeral k) X Y =
     cellMarker m tex (pred_numeral k div N) (pred_numeral k mod N) X Y
       (cellBlit tex (pred_numeral k div N) (pred_numeral k mod N) X Y (interleavedPixel tex N m (pred_numeral k) X Y))"
  "blitsPixel tex N (numeral k) X Y =
     cellBlit tex (pred_numeral k div N) (pred_numeral k mod N) X Y (blitsPixel tex N (pred_numeral k) X Y)"
  "markersLastPixel tex N m (numeral k) X Y =
     cellMarker m tex (pred_numeral k div N) (pred_numeral k mod N) X Y (markersLastPixel tex N m (pred_numeral k) X Y)"
  by (simp_all add: numeral_eq_Suc)

text \<open>
  C8 (as amended). The tile assembler strokes the boundary rectangle of a cell right after
  the blit of that cell, before the cells that follow in row-major order are blitted. With
  a user agent that provides contexts and a texture of at least one pixel, the assembler
  and the variant that strokes all rectangles after all blits both return, and their
  previews agree at every pixel that is not in the first pixel column of a cell right of
  the first column of cells, and not in the first pixel row of a cell below the first row
  of cells. For \<open>N = 1\<close> (and whenever \<open>markSeams\<close> is off) the two results are equal.
\<close>

theorem markers_follow_each_blit:
  assumes ua: "\<forall>w h. getContext2d ua w h" and tex: "tex < length hp"
    and pos: "1 \<le> width (hp ! tex)" "1 \<le> height (hp ! tex)"
  shows "\<exists>h1 h2. generateTilePreview ua tex N markSeams hp = Inr (length hp, h1)
     \<and> assembleMarkersLast ua tex N markSeams hp = Inr (length hp, h2)
     \<and> (\<forall>X Y. (X < width (hp ! tex) \<or> X mod width (hp ! tex) \<noteq> 0)
              \<and> (Y < height (hp ! tex) \<or> Y mod height (hp ! tex) \<noteq> 0)
            \<longrightarrow> pix (h1 ! length hp) X Y = pix (h2 ! length hp) X Y)
     \<and> (N = 1 \<or> \<not> markSeams \<longrightarrow> h1 = h2)"
proof -
  let ?W = "width (hp ! tex)" and ?H = "height (hp ! tex)"
  have p: "0 < ?W" "0 < ?H" using pos by simp_all
  from generateTilePreview_pixels [OF ua tex p, of N markSeams]
  obtain h1 where r1: "generateTilePreview ua tex N markSeams hp = Inr (length hp, h1)"
    and t1: "tilePix hp (?W * N) (?H * N) (interleavedPixel (hp ! tex) N markSeams (N * N)) h1"
    by blast
  from assembleMarkersLast_pixels [OF ua tex p, of N markSeams]
  obtain h2 where r2: "assembleMarkersLast ua tex N markSeams hp = Inr (length hp, h2)"
    and t2: "tilePix hp (?W * N) (?H * N) (markersLastPixel (hp ! tex) N markSeams (N * N)) h2"
    by blast
  have px1: "pix (h1 ! length hp) X Y =
      (if X < ?W * N \<and> Y < ?H * N then interleavedPixel (hp ! tex) N markSeams (N * N) X Y else 0)" for X Y
    using t1 by (simp add: tilePix_def)
  have px2: "pix (h2 ! length hp) X Y =
      (if X < ?W * N \<and> Y < ?H * N then markersLastPixel (hp ! tex) N markSeams (N * N) X Y else 0)" for X Y
    using t2 by (simp add: tilePix_def)
  have agree: "pix (h1 ! length hp) X Y = pix (h2 ! length hp) X Y"
    if "\<not> markSeams \<or> ((X < ?W \<or> X mod ?W \<noteq> 0) \<and> (Y < ?H \<or> Y mod ?H \<noteq> 0))" for X Y
  proof (cases "X < ?W * N \<and> Y < ?H * N")
    case True
    then have "interleavedPixel (hp ! tex) N markSeams (N * N) X Y = markersLastPixel (hp ! tex) N markSeams (N * N) X Y"
      using pixel_orders_agree [OF p _ _ that, of N] by simp
    then show ?thesis by (simp only: px1 px2)
  next
    case False
    show ?thesis by (simp only: px1 px2 if_not_P [OF False])
  qed
  have same: "h1 = h2" if "N = 1 \<or> \<not> markSeams"
  proof (rule tilePix_unique [OF t1 t2])
    fix X Y assume "X < ?W * N" "Y < ?H * N"
    with that have "\<not> markSeams \<or> ((X < ?W \<or> X mod ?W \<noteq> 0) \<and> (Y < ?H \<or> Y mod ?H \<noteq> 0))"
      by auto
    from pixel_orders_agree [OF p \<open>X < ?W * N\<close> \<open>Y < ?H * N\<close> this]
    show "interleavedPixel (hp ! tex) N markSeams (N * N) X Y = markersLastPixel (hp ! tex) N markSeams (N * N) X Y" .
  qed
  show ?thesis using r1 r2 agree same by blast
qed

theorem markers_follow_each_blit_witness:
  "(\<exists>h1 h2. generateTilePreview agent0 0 2 True [ramp 2 2] = Inr (1, h1)
      \<and> assembleMarkersLast agent0 0 2 True [ramp 2 2] = Inr (1, h2)
      \<and> pix (h1 ! 1) 3 1 = pix (h2 ! 1) 3 1)
   \<and> generateTilePreview agent0 0 1 True [ramp 2 2] = assembleMarkersLast agent0 0 1 True [ramp 2 2]"
proof -
  have a: "\<forall>w h. getContext2d agent0 w h" "(0::nat) < length [ramp 2 2]"
    "1 \<le> width ([ramp 2 2] ! 0)" "1 \<le> height ([ramp 2 2] ! 0)"
    by (simp_all add: agent0_simps fixture_simps)
  from markers_follow_each_blit [OF a, of 2 True]
  obtain h1 h2 where r: "generateTilePreview agent0 0 2 True [ramp 2 2] = Inr (1, h1)"
      "assembleMarkersLast agent0 0 2 True [ramp 2 2] = Inr (1, h2)"
    and p: "\<forall>X Y. (X < 2 \<or> X mod 2 \<noteq> 0) \<and> (Y < 2 \<or> Y mod 2 \<noteq> 0)
            \<longrightarrow> pix (h1 ! 1) X Y = pix (h2 ! 1) X Y"
    by (auto simp: fixture_simps)
  have "pix (h1 ! 1) 3 1 = pix (h2 ! 1) 3 1" using p [rule_format, of 3 1] by simp
  moreover have "generateTilePreview agent0 0 1 True [ramp 2 2] = assembleMarkersLast agent0 0 1 True [ramp 2 2]"
    using markers_follow_each_blit [OF a, of 1 True] by auto
  ultimately show ?thesis using r by blast
qed

text \<open>
  For \<open>N = 2\<close> the results differ. On an opaque black texture of one pixel the pixel
  \<open>(1, 0)\<close> of the preview lies in the cell of column 1; half of the right boundary line of
  the cell of column 0 falls on it and is overdrawn by the blit of the cell of column 1,
  which leaves less red than the markers drawn after all blits.
\<close>

theorem later_blit_overdraws_marker_counterexample:
  "(case generateTilePreview agent0 0 2 True [ramp 1 1] of
      Inl e \<Rightarrow> False
    | Inr (p, h1) \<Rightarrow> pix (h1 ! p) 1 0 = Pixel (43 / 64) 0 0 1)
   \<and> (case assembleMarkersLast agent0 0 2 True [ramp 1 1] of
      Inl e \<Rightarrow> False
    | Inr (p, h2) \<Rightarrow> pix (h2 ! p) 1 0 = Pixel (193 / 256) 0 0 1)"
proof -
  have a: "\<forall>w h. getContext2d agent0 w h" "(0::nat) < length [ramp 1 1]"
    "0 < width ([ramp 1 1] ! 0)" "0 < height ([ramp 1 1] ! 0)"
    by (simp_all add: agent0_simps fixture_simps)
  from generateTilePreview_pixels [OF a, of 2 True]
  obtain h1 where r1: "generateTilePreview agent0 0 2 True [ramp 1 1] = Inr (1, h1)"
    and p1: "pix (h1 ! 1) 1 0 = interleavedPixel (ramp 1 1) 2 True 4 1 0"
    by (auto simp: tilePix_def fixture_simps)
  from assembleMarkersLast_pixels [OF a, of 2 True]
  obtain h2 where r2: "assembleMarkersLast agent0 0 2 True [ramp 1 1] = Inr (1, h2)"
    and p2: "pix (h2 ! 1) 1 0 = markersLastPixel (ramp 1 1) 2 True 4 1 0"
    by (auto simp: tilePix_def fixture_simps)
  have e1: "interleavedPixel (ramp 1 1) 2 True 4 1 0 = Pixel (43 / 64) 0 0 1"
    by (simp add: pixel_numeral cellMarker_def cellBlit_def strokeCoverage_def ov_def fixture_simps
        over_def scalePx_def plus_pixel_def zero_pixel_def)
  have e2: "markersLastPixel (ramp 1 1) 2 True 4 1 0 = Pixel (193 / 256) 0 0 1"
    by (simp add: pixel_numeral cellMarker_def cellBlit_def strokeCoverage_def ov_def fixture_simps
        over_def scalePx_def plus_pixel_def zero_pixel_def)
  show ?thesis unfolding r1 r2 using p1 p2 e1 e2 by simp
qed

section \<open>The dispatch on the method\<close>

lemma method_names: "SCATTERED \<noteq> MIRRORED" "SCATTERED \<noteq> PATCH_BASED"
  by (simp_all add: SCATTERED_def MIRRORED_def PATCH_BASED_def)

text \<open>
  C10 (as amended). The dispatch is total with Scattered as the default: every method
  string other than \<open>'mirrored'\<close> and \<open>'patch_based'\<close>, inside the enumeration or not,
  runs \<open>generateScattered\<close>, in the switch and so in \<open>processTexture\<close>, where it behaves
  as \<open>'scattered'\<close> does. With a user agent that provides contexts and a working surface
  of at least 2 by 2 the synthesis then returns a canvas of the size of the working
  surface and leaves the canvases of the store as they were.
\<close>

theorem dispatch_defaults_to_scattered:
  assumes "method \<noteq> MIRRORED" and "method \<noteq> PATCH_BASED"
  shows "generateSeamless ua rnd method cur hp = generateScattered ua cur hp
     \<and> processTexture ua rnd loaded method N markSeams crop averaging fmt q hp0
         = processTexture ua rnd loaded SCATTERED N markSeams crop averaging fmt q hp0
     \<and> ((\<forall>w h. getContext2d ua w h) \<and> cur < length hp
           \<and> 2 \<le> width (hp ! cur) \<and> 2 \<le> height (hp ! cur) \<longrightarrow>
         (\<exists>c hp'. generateSeamless ua rnd method cur hp = Inr (c, hp')
            \<and> width (hp' ! c) = width (hp ! cur) \<and> height (hp' ! c) = height (hp ! cur)
            \<and> (\<forall>k<length hp. hp' ! k = hp ! k)))"
proof (intro conjI impI)
  show d: "generateSeamless ua rnd method cur hp = generateScattered ua cur hp"
    using assms by (simp add: generateSeamless_def)
  have gs: "generateSeamless ua rnd method c h = generateSeamless ua rnd SCATTERED c h" for c h
    using assms method_names by (simp add: generateSeamless_def)
  show "processTexture ua rnd loaded method N markSeams crop averaging fmt q hp0
         = processTexture ua rnd loaded SCATTERED N markSeams crop averaging fmt q hp0"
    by (cases loaded) (simp_all add: processTexture_def gs)
  assume a: "(\<forall>w h. getContext2d ua w h) \<and> cur < length hp
           \<and> 2 \<le> width (hp ! cur) \<and> 2 \<le> height (hp ! cur)"
  from generateScattered_result [of ua cur hp] a
  obtain S M P where r: "generateScattered ua cur hp = Inr (length hp, hp @ [S, M, P])"
    and s: "width S = width (hp ! cur)" "height S = height (hp ! cur)"
    by blast
  show "\<exists>c hp'. generateSeamless ua rnd method cur hp = Inr (c, hp')
            \<and> width (hp' ! c) = width (hp ! cur) \<and> height (hp' ! c) = height (hp ! cur)
            \<and> (\<forall>k<length hp. hp' ! k = hp ! k)"
    unfolding d r using s by (simp add: nth_append)
qed

theorem dispatch_defaults_to_scattered_witness:
  "generateSeamless agent0 (\<lambda>k. 0) ''sepia'' 0 [ramp 4 4] = generateScattered agent0 0 [ramp 4 4]
   \<and> (\<exists>c hp'. generateSeamless agent0 (\<lambda>k. 0) ''sepia'' 0 [ramp 4 4] = Inr (c, hp')
        \<and> width (hp' ! c) = 4 \<and> height (hp' ! c) = 4 \<and> hp' ! 0 = ramp 4 4)"
proof -
  have m: "''sepia'' \<noteq> MIRRORED" "''sepia'' \<noteq> PATCH_BASED"
    by (simp_all add: MIRRORED_def PATCH_BASED_def)
  note t = dispatch_defaults_to_scattered [OF m, of agent0 "\<lambda>k. 0" 0 "[ramp 4 4]" None 1 False
      "\<lparr>top = 0, bottom = 0, left = 0, right = 0\<rparr>" "\<lparr>intensity = 0, radius = 5\<rparr>" PNG 90 "[]"]
  have a: "(\<forall>w h. getContext2d agent0 w h) \<and> 0 < length [ramp 4 4]
      \<and> 2 \<le> width ([ramp 4 4] ! 0) \<and> 2 \<le> height ([ramp 4 4] ! 0)"
    by (simp add: agent0_simps fixture_simps)
  from t a obtain c hp' where r: "generateSeamless agent0 (\<lambda>k. 0) ''sepia'' 0 [ramp 4 4] = Inr (c, hp')"
    and d: "width (hp' ! c) = width ([ramp 4 4] ! 0)" "height (hp' ! c) = height ([ramp 4 4] ! 0)"
    and f: "\<forall>k<length [ramp 4 4]. hp' ! k = [ramp 4 4] ! k"
    by blast
  have "width (hp' ! c) = 4" "height (hp' ! c) = 4" "hp' ! 0 = ramp 4 4"
    using d f by (simp_all add: fixture_simps)
  then show ?thesis using t r by blast
qed

text \<open>
  Without the bound on the size the synthesis can fail on an unrecognized method as it
  does on \<open>'scattered'\<close>: on a surface of one pixel \<open>generateScattered\<close> raises
  \<open>InvalidStateError\<close>, and \<open>processTexture\<close> with it.
\<close>

theorem unrecognized_method_fails_on_one_pixel_counterexample:
  "generateSeamless agent0 (\<lambda>k. 0) ''sepia'' 0 [ramp 1 1] = Inl InvalidState
   \<and> processTexture agent0 (\<lambda>k. 0) (Some (ramp 1 1)) ''sepia'' 1 False
        \<lparr>top = 0, bottom = 0, left = 0, right = 0\<rparr> \<lparr>intensity = 0, radius = 5\<rparr> PNG 90 [] = Inl InvalidState"
proof -
  have h: "jsRound (1 / 2) = 1" using jsRound_half_nat [of 1] by simp
  have f: "nat \<lfloor>7 / 10 :: real\<rfloor> = 0" by simp
  have s: "generateScattered agent0 0 [S] = Inl InvalidState" if "width S = 1" "height S = 1" for S
    using that
    by (simp add: generateScattered_def torusShift_def drawQuadrant_def quadrant_def Let_def createCanvas_def
        bindE_simps drawImage9_def drawImage3_def fillRect_def nth_append list_update_append
        agent0_simps h f paintImage_simps ctx_simps blank_simps)
  have m: "''sepia'' \<noteq> MIRRORED" "''sepia'' \<noteq> PATCH_BASED"
    by (simp_all add: MIRRORED_def PATCH_BASED_def)
  have g: "generateSeamless agent0 (\<lambda>k. 0) ''sepia'' 0 [S] = Inl InvalidState"
    if "width S = 1" "height S = 1" for S
    using m s [OF that] by (simp add: generateSeamless_def)
  have "generateSeamless agent0 (\<lambda>k. 0) ''sepia'' 0 [ramp 1 1] = Inl InvalidState"
    by (rule g) (simp_all add: fixture_simps)
  moreover have "processTexture agent0 (\<lambda>k. 0) (Some (ramp 1 1)) ''sepia'' 1 False
        \<lparr>top = 0, bottom = 0, left = 0, right = 0\<rparr> \<lparr>intensity = 0, radius = 5\<rparr> PNG 90 [] = Inl InvalidState"
    by (simp add: processTexture_def createCanvas_def agent0_simps drawElement_def fixture_simps bindE_simps
        ctx_simps preCrop_def preAveraging_def g paintImage_simps blank_simps)
  ultimately show ?thesis by simp
qed

end
